theory Spec2Isabelle
  imports Complex_Main "HOL-Library.Multiset"
begin

section \<open>Decimal arithmetic of the program\<close>

text \<open>
  The program computes with Python's \<^verbatim>\<open>decimal.Decimal\<close> under the context it sets at
  import time (\<^verbatim>\<open>getcontext().prec = 28\<close>, everything else the default context:
  rounding half-even, \<^verbatim>\<open>Emax = 999999\<close>, \<^verbatim>\<open>Emin = -999999\<close>, traps on
  InvalidOperation, DivisionByZero and Overflow).  A finite Decimal is modelled by its
  numeric value, a rational; Python's \<^verbatim>\<open>==\<close>, \<^verbatim>\<open><=\<close> and \<^verbatim>\<open>>=\<close> on Decimals compare
  exactly these values.  Every arithmetic operation computes the exact result and then
  rounds it to the context (\<open>ctx_round\<close>); NaN and infinities are not modelled, they are
  not finite Decimals.
\<close>

type_synonym decimal = rat

datatype error = InvalidOperation | DivisionByZero | Overflow

definition prec :: int where
  "prec = 28"

definition Emax :: int where
  "Emax = 999999"

definition Emin :: int where
  "Emin = - 999999"

definition Etiny :: int where
  "Etiny = Emin - (prec - 1)"

text \<open>The number of decimal digits of a non-negative integer (1 for numbers below ten).\<close>

function ndigits :: "int \<Rightarrow> int" where
  "ndigits n = (if n < 10 then 1 else 1 + ndigits (n div 10))"
  by pat_completeness auto
termination
  by (relation "measure nat") auto

declare ndigits.simps [simp del]

text \<open>The adjusted exponent of a non-zero value: the exponent of its leading digit.\<close>

definition adjusted :: "rat \<Rightarrow> int" where
  "adjusted q =
     (let (n, d) = quotient_of \<bar>q\<bar>;
          k = ndigits n - ndigits d
      in if 10 powi k \<le> \<bar>q\<bar> then k else k - 1)"

definition round_half_even :: "rat \<Rightarrow> int" where
  "round_half_even x =
     (let f = \<lfloor>x\<rfloor>; r = x - of_int f
      in if r < 1 / 2 then f
         else if 1 / 2 < r then f + 1
         else if even f then f else f + 1)"

text \<open>
  Rounding of an exact result to the context: at most \<open>prec\<close> significant digits, never
  an exponent below \<open>Etiny\<close> (a subnormal result loses digits, possibly down to zero;
  the Underflow signal is not trapped).
\<close>

definition exp_min :: "rat \<Rightarrow> int" where
  "exp_min q = max (adjusted q - (prec - 1)) Etiny"

definition round_coeff :: "rat \<Rightarrow> rat" where
  "round_coeff q =
     (if q = 0 then 0
      else of_int (round_half_even (q / 10 powi exp_min q)) * 10 powi exp_min q)"

text \<open>
  The Overflow signal is trapped: an operation whose rounded result has an adjusted
  exponent above \<open>Emax\<close> raises.
\<close>

definition ctx_round :: "rat \<Rightarrow> error + decimal" where
  "ctx_round q =
     (let r = round_coeff q
      in if r \<noteq> 0 \<and> Emax < adjusted r then Inl Overflow else Inr r)"

definition dec_add :: "decimal \<Rightarrow> decimal \<Rightarrow> error + decimal" where
  "dec_add x y = ctx_round (x + y)"

definition dec_sub :: "decimal \<Rightarrow> decimal \<Rightarrow> error + decimal" where
  "dec_sub x y = ctx_round (x - y)"

definition dec_mul :: "decimal \<Rightarrow> decimal \<Rightarrow> error + decimal" where
  "dec_mul x y = ctx_round (x * y)"

definition dec_div :: "decimal \<Rightarrow> decimal \<Rightarrow> error + decimal" where
  "dec_div x y =
     (if y = 0 then (if x = 0 then Inl InvalidOperation else Inl DivisionByZero)
      else ctx_round (x / y))"


section \<open>Pools and the swap simulator\<close>

text \<open>
  A pool is the dictionary built by \<^verbatim>\<open>fetch_all_pools\<close> and
  \<^verbatim>\<open>parse_lifinity_pool_data\<close>.  The engine reads the keys \<^verbatim>\<open>token_a\<close>,
  \<^verbatim>\<open>token_b\<close>, \<^verbatim>\<open>reserve_a\<close> and \<^verbatim>\<open>reserve_b\<close> by subscript and the key
  \<^verbatim>\<open>fee\<close> through \<^verbatim>\<open>pool.get('fee', Decimal('0'))\<close>, so the fee alone is optional.
\<close>

record pool =
  token_a :: string
  token_b :: string
  reserve_a :: decimal
  reserve_b :: decimal
  fee :: "decimal option"

text \<open>Lines 101-102 of \<^verbatim>\<open>simulate_swap\<close>, after the reserves have been chosen.\<close>

definition swap_formula :: "decimal \<Rightarrow> decimal \<Rightarrow> decimal \<Rightarrow> decimal \<Rightarrow> error + decimal" where
  "swap_formula amount_in fee_rate reserve_in reserve_out =
     (case dec_sub 1 fee_rate of Inl e \<Rightarrow> Inl e | Inr one_minus_fee \<Rightarrow>
      case dec_mul amount_in one_minus_fee of Inl e \<Rightarrow> Inl e | Inr amount_after_fee \<Rightarrow>
      case dec_mul amount_after_fee reserve_out of Inl e \<Rightarrow> Inl e | Inr numerator \<Rightarrow>
      case dec_add reserve_in amount_after_fee of Inl e \<Rightarrow> Inl e | Inr divisor \<Rightarrow>
      dec_div numerator divisor)"

text \<open>Line 94: \<^verbatim>\<open>pool.get('fee', Decimal('0'))\<close>.\<close>

definition fee_of :: "pool \<Rightarrow> decimal" where
  "fee_of p = (case fee p of None \<Rightarrow> 0 | Some f \<Rightarrow> f)"

definition simulate_swap :: "decimal \<Rightarrow> pool \<Rightarrow> string \<Rightarrow> error + decimal" where
  "simulate_swap amount_in p input_token =
     (if input_token = token_a p then
        swap_formula amount_in (fee_of p) (reserve_a p) (reserve_b p)
      else if input_token = token_b p then
        swap_formula amount_in (fee_of p) (reserve_b p) (reserve_a p)
      else Inr 0)"

section \<open>The cycle search\<close>

text \<open>
  An opportunity is the dictionary literal of lines 130-134: its keys in the order they
  are written, each with a list of tokens or a Decimal as value.
\<close>

datatype pyval = PyList "string list" | PyDecimal decimal

type_synonym opportunity = "(string \<times> pyval) list"

text \<open>\<^verbatim>\<open>d.setdefault(k, []).append(p)\<close> and \<^verbatim>\<open>d.get(k, [])\<close> on the index.\<close>

definition setdefault_append :: "string \<Rightarrow> pool \<Rightarrow> (string \<rightharpoonup> pool list) \<Rightarrow> (string \<rightharpoonup> pool list)" where
  "setdefault_append k p d = d(k \<mapsto> (case d k of None \<Rightarrow> [] | Some ps \<Rightarrow> ps) @ [p])"

definition get_pools :: "(string \<rightharpoonup> pool list) \<Rightarrow> string \<Rightarrow> pool list" where
  "get_pools d k = (case d k of None \<Rightarrow> [] | Some ps \<Rightarrow> ps)"

definition index_pool :: "pool \<Rightarrow> (string \<rightharpoonup> pool list) \<Rightarrow> (string \<rightharpoonup> pool list)" where
  "index_pool p d = setdefault_append (token_b p) p (setdefault_append (token_a p) p d)"

definition pools_by_token :: "pool list \<Rightarrow> (string \<rightharpoonup> pool list)" where
  "pools_by_token pools = fold index_pool pools Map.empty"

text \<open>
  A \<^verbatim>\<open>for\<close> loop over a list whose body updates the list of opportunities; a
  \<^verbatim>\<open>continue\<close> is a body that returns the state unchanged, and an exception raised in
  the body leaves the loop and the function.
\<close>

primrec for_each :: "'a list \<Rightarrow> ('a \<Rightarrow> 's \<Rightarrow> error + 's) \<Rightarrow> 's \<Rightarrow> error + 's" where
  "for_each [] body s = Inr s"
| "for_each (x # xs) body s =
     (case body x s of Inl e \<Rightarrow> Inl e | Inr s' \<Rightarrow> for_each xs body s')"

definition other_token :: "pool \<Rightarrow> string \<Rightarrow> string" where
  "other_token p tok = (if token_a p = tok then token_b p else token_a p)"

text \<open>The dictionary appended at lines 130-134.\<close>

definition opportunity_dict :: "string \<Rightarrow> string \<Rightarrow> string \<Rightarrow> decimal \<Rightarrow> decimal \<Rightarrow> opportunity" where
  "opportunity_dict base_token tok1 tok2 amt3 profit =
     [(''path'', PyList [base_token, tok1, tok2, base_token]),
      (''amount_out'', PyDecimal amt3),
      (''profit'', PyDecimal profit)]"

definition third_hop ::
  "string \<Rightarrow> decimal \<Rightarrow> decimal \<Rightarrow> string \<Rightarrow> string \<Rightarrow> decimal \<Rightarrow> pool \<Rightarrow>
   opportunity list \<Rightarrow> error + opportunity list" where
  "third_hop base_token amount_in min_profit tok1 tok2 amt2 p3 opportunities =
     (if base_token \<noteq> token_a p3 \<and> base_token \<noteq> token_b p3 then Inr opportunities
      else case simulate_swap amt2 p3 tok2 of Inl e \<Rightarrow> Inl e | Inr amt3 \<Rightarrow>
           case dec_sub amt3 amount_in of Inl e \<Rightarrow> Inl e | Inr profit \<Rightarrow>
           if min_profit \<le> profit then
             Inr (opportunities @ [opportunity_dict base_token tok1 tok2 amt3 profit])
           else Inr opportunities)"

definition second_hop ::
  "(string \<rightharpoonup> pool list) \<Rightarrow> string \<Rightarrow> decimal \<Rightarrow> decimal \<Rightarrow> string \<Rightarrow> decimal \<Rightarrow> pool \<Rightarrow>
   opportunity list \<Rightarrow> error + opportunity list" where
  "second_hop d base_token amount_in min_profit tok1 amt1 p2 opportunities =
     (let tok2 = other_token p2 tok1
      in if tok2 = base_token then Inr opportunities
         else case simulate_swap amt1 p2 tok1 of Inl e \<Rightarrow> Inl e | Inr amt2 \<Rightarrow>
              if amt2 \<le> 0 then Inr opportunities
              else for_each (get_pools d tok2)
                     (third_hop base_token amount_in min_profit tok1 tok2 amt2) opportunities)"

definition first_hop ::
  "(string \<rightharpoonup> pool list) \<Rightarrow> string \<Rightarrow> decimal \<Rightarrow> decimal \<Rightarrow> pool \<Rightarrow>
   opportunity list \<Rightarrow> error + opportunity list" where
  "first_hop d base_token amount_in min_profit p1 opportunities =
     (let tok1 = other_token p1 base_token
      in case simulate_swap amount_in p1 base_token of Inl e \<Rightarrow> Inl e | Inr amt1 \<Rightarrow>
         if amt1 \<le> 0 then Inr opportunities
         else for_each (get_pools d tok1)
                (second_hop d base_token amount_in min_profit tok1 amt1) opportunities)"

definition find_arbitrage_opportunities ::
  "pool list \<Rightarrow> string \<Rightarrow> decimal \<Rightarrow> decimal \<Rightarrow> error + opportunity list" where
  "find_arbitrage_opportunities pools base_token amount_in min_profit =
     (let d = pools_by_token pools
      in for_each (get_pools d base_token) (first_hop d base_token amount_in min_profit) [])"


section \<open>Auxiliary notions used in the statements and proofs\<close>

text \<open>The entries one pool contributes to the index under a token, in the order of lines 109-110.\<close>

definition entries_for :: "string \<Rightarrow> pool \<Rightarrow> pool list" where
  "entries_for t p = (if token_a p = t then [p] else []) @ (if token_b p = t then [p] else [])"

text \<open>A loop body that only ever appends to the list of opportunities it is given.\<close>

definition appends :: "('a \<Rightarrow> 'b list \<Rightarrow> error + 'b list) \<Rightarrow> bool" where
  "appends body \<longleftrightarrow>
     (\<forall>x s. body x s = (case body x [] of Inl e \<Rightarrow> Inl e | Inr ys \<Rightarrow> Inr (s @ ys)))"

text \<open>
  Two results of the search that agree up to the order of the list: both raise, or both
  return and the lists are equal as multisets.
\<close>

definition same_outcome :: "error + 'a list \<Rightarrow> error + 'a list \<Rightarrow> bool" where
  "same_outcome r r' =
     (case r of
        Inl e \<Rightarrow> (case r' of Inl e' \<Rightarrow> True | Inr ys \<Rightarrow> False)
      | Inr xs \<Rightarrow> (case r' of Inl e' \<Rightarrow> False | Inr ys \<Rightarrow> mset xs = mset ys))"

text \<open>
  Magnitudes for the statements about the simulator: a value is zero or lies between two
  powers of ten.  Inside the range \<open>in_range\<close>, far within the exponent range of the
  context, no operation of \<open>swap_formula\<close> overflows or underflows.
\<close>

definition magnitude :: "int \<Rightarrow> int \<Rightarrow> rat \<Rightarrow> bool" where
  "magnitude lo hi q \<longleftrightarrow> q = 0 \<or> (10 powi lo \<le> q \<and> q \<le> 10 powi hi)"

definition range_exp :: int where
  "range_exp = 100000"

definition in_range :: "rat \<Rightarrow> bool" where
  "in_range q \<longleftrightarrow> magnitude (- range_exp) range_exp q"

text \<open>A value that the context rounding leaves as it is.\<close>

definition representable :: "rat \<Rightarrow> bool" where
  "representable v \<longleftrightarrow> ctx_round v = Inr v"

(*DEFS*)

section \<open>Facts about the decimal rounding\<close>

lemma p10_pos: "0 < (10::rat) powi e"
  by (simp add: zero_less_power_int)

lemma p10_add: "(10::rat) powi (a + b) = 10 powi a * 10 powi b"
  by (simp add: power_int_add)

lemma p10_diff: "(10::rat) powi (a - b) = 10 powi a / 10 powi b"
  by (simp add: power_int_diff)

lemma p10_less_iff: "(10::rat) powi a < 10 powi b \<longleftrightarrow> a < b"
proof
  assume "(10::rat) powi a < 10 powi b"
  show "a < b"
  proof (rule ccontr)
    assume "\<not> a < b"
    then have "b \<le> a" by simp
    then have "(10::rat) powi b \<le> 10 powi a" by (rule power_int_increasing) simp
    with \<open>(10::rat) powi a < 10 powi b\<close> show False by simp
  qed
next
  assume "a < b"
  then show "(10::rat) powi a < 10 powi b" by (rule power_int_strict_increasing) simp
qed

lemma p10_le_iff: "(10::rat) powi a \<le> 10 powi b \<longleftrightarrow> a \<le> b"
  using p10_less_iff [of b a] by (simp add: not_less [symmetric])

lemma ndigits_bounds:
  "0 < n \<Longrightarrow> 1 \<le> ndigits n \<and> 10 ^ nat (ndigits n - 1) \<le> n \<and> n < 10 ^ nat (ndigits n)"
proof (induction n rule: ndigits.induct)
  case (1 n)
  show ?case
  proof (cases "n < 10")
    case True
    with "1.prems" show ?thesis by (simp add: ndigits.simps [of n])
  next
    case False
    then have pos: "0 < n div 10" by simp
    let ?k = "ndigits (n div 10)"
    from "1.IH" [OF False pos] have k: "1 \<le> ?k"
      and lo: "10 ^ nat (?k - 1) \<le> n div 10" and hi: "n div 10 < 10 ^ nat ?k" by simp_all
    have nd: "ndigits n = 1 + ?k" using False by (simp add: ndigits.simps [of n])
    have e: "nat (1 + ?k - 1) = Suc (nat (?k - 1))" "nat (1 + ?k) = Suc (nat ?k)"
      using k by simp_all
    have "10 * 10 ^ nat (?k - 1) \<le> 10 * (n div 10)" using lo by simp
    also have "\<dots> \<le> n" by simp
    finally have 1: "10 ^ nat (1 + ?k - 1) \<le> n" unfolding e by simp
    have "n < 10 * (n div 10 + 1)" by simp
    also have "\<dots> \<le> 10 * 10 ^ nat ?k" using hi by simp
    finally have 2: "n < 10 ^ nat (1 + ?k)" unfolding e by simp
    from 1 2 k show ?thesis unfolding nd by simp
  qed
qed

lemma ndigits_bounds_rat:
  assumes "0 < n"
  shows "(10::rat) powi (ndigits n - 1) \<le> of_int n" and "of_int n < (10::rat) powi ndigits n"
proof -
  from ndigits_bounds [OF assms] have k: "1 \<le> ndigits n"
    and lo: "10 ^ nat (ndigits n - 1) \<le> n" and hi: "n < 10 ^ nat (ndigits n)" by simp_all
  have "(10::rat) powi (ndigits n - 1) = 10 powi int (nat (ndigits n - 1))" using k by simp
  also have "\<dots> = of_int (10 ^ nat (ndigits n - 1))" by (simp only: power_int_of_nat) simp
  also have "\<dots> \<le> of_int n" using lo by (simp only: of_int_le_iff)
  finally show "(10::rat) powi (ndigits n - 1) \<le> of_int n" .
  have "(of_int n :: rat) < of_int (10 ^ nat (ndigits n))" using hi by (simp only: of_int_less_iff)
  also have "\<dots> = 10 powi int (nat (ndigits n))" by (simp only: power_int_of_nat) simp
  also have "\<dots> = 10 powi ndigits n" using k by simp
  finally show "of_int n < (10::rat) powi ndigits n" .
qed

lemma adjusted_bounds:
  assumes "q \<noteq> 0"
  shows "10 powi adjusted q \<le> \<bar>q\<bar>" and "\<bar>q\<bar> < 10 powi (adjusted q + 1)"
proof -
  obtain n d where nd: "quotient_of \<bar>q\<bar> = (n, d)" by (cases "quotient_of \<bar>q\<bar>")
  then have d: "0 < d" by (rule quotient_of_denom_pos)
  from nd have q: "\<bar>q\<bar> = of_int n / of_int d" by (rule quotient_of_div)
  from assms have "0 < \<bar>q\<bar>" by simp
  with q d have n: "0 < n" by (simp add: zero_less_divide_iff)
  let ?k = "ndigits n - ndigits d"
  note bn = ndigits_bounds_rat [OF n] and bd = ndigits_bounds_rat [OF d]
  have dpos: "(0::rat) < of_int d" using d by simp
  have lo: "(10::rat) powi (?k - 1) \<le> \<bar>q\<bar>"
  proof -
    have "(10::rat) powi (?k - 1) * of_int d \<le> 10 powi (?k - 1) * 10 powi ndigits d"
      using bd(2) p10_pos [of "?k - 1"] by (simp add: mult_left_mono)
    also have "\<dots> = 10 powi (ndigits n - 1)" by (simp add: p10_add [symmetric])
    also have "\<dots> \<le> of_int n" by (rule bn(1))
    finally show ?thesis unfolding q using dpos by (simp add: pos_le_divide_eq)
  qed
  have hi: "\<bar>q\<bar> < (10::rat) powi (?k + 1)"
  proof -
    have "(of_int n :: rat) < 10 powi ndigits n" by (rule bn(2))
    also have "\<dots> = 10 powi (?k + 1) * 10 powi (ndigits d - 1)" by (simp add: p10_add [symmetric])
    also have "\<dots> \<le> 10 powi (?k + 1) * of_int d"
      using bd(1) p10_pos [of "?k + 1"] by (simp add: mult_left_mono)
    finally show ?thesis unfolding q using dpos by (simp add: pos_divide_less_eq)
  qed
  have adj: "adjusted q = (if 10 powi ?k \<le> \<bar>q\<bar> then ?k else ?k - 1)"
    by (simp add: adjusted_def nd Let_def)
  show "10 powi adjusted q \<le> \<bar>q\<bar>" using lo by (simp add: adj)
  show "\<bar>q\<bar> < 10 powi (adjusted q + 1)" using hi by (simp add: adj not_le)
qed

lemma adjusted_unique:
  assumes "10 powi k \<le> \<bar>q\<bar>" and "\<bar>q\<bar> < 10 powi (k + 1)"
  shows "adjusted q = k"
proof -
  have "(0::rat) < 10 powi k" by (rule p10_pos)
  with assms(1) have "0 < \<bar>q\<bar>" by linarith
  then have "q \<noteq> 0" by simp
  note b = adjusted_bounds [OF this]
  from b(1) assms(2) have "(10::rat) powi adjusted q < 10 powi (k + 1)" by simp
  then have 1: "adjusted q < k + 1" by (simp only: p10_less_iff)
  from assms(1) b(2) have "(10::rat) powi k < 10 powi (adjusted q + 1)" by simp
  then have 2: "k < adjusted q + 1" by (simp only: p10_less_iff)
  from 1 2 show ?thesis by simp
qed

lemma adjusted_minus [simp]: "adjusted (- q) = adjusted q"
  by (simp add: adjusted_def)

lemma adjusted_mono:
  assumes "q \<noteq> 0" and "\<bar>q\<bar> \<le> \<bar>r\<bar>"
  shows "adjusted q \<le> adjusted r"
proof -
  from assms have r: "r \<noteq> 0" by auto
  have "(10::rat) powi adjusted q \<le> \<bar>q\<bar>" by (rule adjusted_bounds (1) [OF assms(1)])
  also note assms(2)
  also have "\<bar>r\<bar> < 10 powi (adjusted r + 1)" by (rule adjusted_bounds (2) [OF r])
  finally have "adjusted q < adjusted r + 1" by (simp only: p10_less_iff)
  then show ?thesis by simp
qed

lemma adjusted_p10 [simp]: "adjusted (10 powi k) = k"
  by (rule adjusted_unique) (simp_all add: p10_less_iff abs_of_pos p10_pos)

lemma rhe_cases:
  "round_half_even x = \<lfloor>x\<rfloor> \<or> round_half_even x = \<lfloor>x\<rfloor> + 1"
  by (simp add: round_half_even_def Let_def)

lemma rhe_of_int [simp]: "round_half_even (of_int n) = n"
  by (simp add: round_half_even_def Let_def)

lemma rhe_floor_le: "\<lfloor>x\<rfloor> \<le> round_half_even x"
  using rhe_cases [of x] by auto

lemma rhe_le_floor_Suc: "round_half_even x \<le> \<lfloor>x\<rfloor> + 1"
  using rhe_cases [of x] by auto

lemma rhe_mono:
  assumes "x \<le> y"
  shows "round_half_even x \<le> round_half_even y"
proof (cases "\<lfloor>x\<rfloor> = \<lfloor>y\<rfloor>")
  case True
  with assms have "x - of_int \<lfloor>x\<rfloor> \<le> y - of_int \<lfloor>y\<rfloor>" by simp
  with True show ?thesis by (auto simp: round_half_even_def Let_def)
next
  case False
  with assms have "\<lfloor>x\<rfloor> < \<lfloor>y\<rfloor>" using floor_mono [OF assms] by simp
  then have "\<lfloor>x\<rfloor> + 1 \<le> \<lfloor>y\<rfloor>" by simp
  with rhe_le_floor_Suc [of x] rhe_floor_le [of y] show ?thesis by linarith
qed

lemma rhe_le_int: "x \<le> of_int n \<Longrightarrow> round_half_even x \<le> n"
  using rhe_mono [of x "of_int n"] by simp

lemma rhe_ge_int: "of_int n \<le> x \<Longrightarrow> n \<le> round_half_even x"
  using rhe_mono [of "of_int n" x] by simp

lemma rhe_near:
  assumes "\<bar>x - of_int n\<bar> < 1 / 2"
  shows "round_half_even x = n"
proof -
  from assms have lo: "of_int n - 1 / 2 < x" and hi: "x < of_int n + 1 / 2" by linarith+
  show ?thesis
  proof (cases "of_int n \<le> x")
    case True
    with hi have "\<lfloor>x\<rfloor> = n" by (simp add: floor_eq_iff)
    moreover from hi have "x - of_int n < 1 / 2" by simp
    ultimately show ?thesis by (simp add: round_half_even_def Let_def)
  next
    case False
    with lo have f: "\<lfloor>x\<rfloor> = n - 1" by (simp add: floor_eq_iff)
    from lo have "1 / 2 < x - of_int (n - 1)" by simp
    with f show ?thesis by (simp add: round_half_even_def Let_def)
  qed
qed

lemma Etiny_le_exp_min: "Etiny \<le> exp_min q"
  by (simp add: exp_min_def)

lemma exp_min_le:
  assumes "q \<noteq> 0" and "\<bar>q\<bar> \<le> 10 powi e" and "Etiny \<le> e"
  shows "exp_min q \<le> e"
proof -
  have "(10::rat) powi adjusted q \<le> \<bar>q\<bar>" by (rule adjusted_bounds (1) [OF assms(1)])
  also note assms(2)
  finally have "adjusted q \<le> e" by (simp only: p10_le_iff)
  with assms(3) show ?thesis by (simp add: exp_min_def prec_def)
qed

lemma exp_min_mono:
  assumes "q \<noteq> 0" and "\<bar>q\<bar> \<le> \<bar>r\<bar>"
  shows "exp_min q \<le> exp_min r"
  using adjusted_mono [OF assms] by (simp add: exp_min_def)

lemma p10_shift:
  assumes "E \<le> e"
  shows "of_int m * (10::rat) powi e / 10 powi E = of_int (m * 10 ^ nat (e - E))"
proof -
  have "(10::rat) powi e / 10 powi E = 10 powi (e - E)" by (simp add: p10_diff)
  also have "\<dots> = 10 powi int (nat (e - E))" using assms by simp
  also have "\<dots> = of_int (10 ^ nat (e - E))" by (simp only: power_int_of_nat) simp
  finally have *: "(10::rat) powi e / 10 powi E = of_int (10 ^ nat (e - E))" .
  have "of_int m * (10::rat) powi e / 10 powi E = of_int m * (10 powi e / 10 powi E)"
    by (simp only: times_divide_eq_right)
  then show ?thesis unfolding * by (simp only: of_int_mult)
qed

lemma round_coeff_le_grid:
  assumes "q \<noteq> 0" and "q \<le> of_int m * 10 powi e" and "exp_min q \<le> e"
  shows "round_coeff q \<le> of_int m * 10 powi e"
proof -
  let ?E = "exp_min q"
  have pos: "(0::rat) < 10 powi ?E" by (rule p10_pos)
  from assms(2) pos have "q / 10 powi ?E \<le> of_int m * 10 powi e / 10 powi ?E"
    by (simp add: divide_right_mono)
  then have "q / 10 powi ?E \<le> of_int (m * 10 ^ nat (e - ?E))"
    by (simp only: p10_shift [OF assms(3)])
  then have "round_half_even (q / 10 powi ?E) \<le> m * 10 ^ nat (e - ?E)" by (rule rhe_le_int)
  then have "(of_int (round_half_even (q / 10 powi ?E)) :: rat) \<le> of_int (m * 10 ^ nat (e - ?E))"
    by (simp only: of_int_le_iff)
  then have "(of_int (round_half_even (q / 10 powi ?E)) :: rat) * 10 powi ?E
               \<le> of_int (m * 10 ^ nat (e - ?E)) * 10 powi ?E"
    using pos by (simp only: mult_le_cancel_right_pos)
  also have "(of_int (m * 10 ^ nat (e - ?E)) :: rat) * 10 powi ?E = of_int m * 10 powi e"
    unfolding p10_shift [OF assms(3), symmetric] using pos by simp
  finally show ?thesis using assms(1) by (simp add: round_coeff_def)
qed

lemma round_coeff_ge_grid:
  assumes "q \<noteq> 0" and "of_int m * 10 powi e \<le> q" and "exp_min q \<le> e"
  shows "of_int m * 10 powi e \<le> round_coeff q"
proof -
  let ?E = "exp_min q"
  have pos: "(0::rat) < 10 powi ?E" by (rule p10_pos)
  from assms(2) pos have "of_int m * 10 powi e / 10 powi ?E \<le> q / 10 powi ?E"
    by (simp add: divide_right_mono)
  then have "of_int (m * 10 ^ nat (e - ?E)) \<le> q / 10 powi ?E"
    by (simp only: p10_shift [OF assms(3)])
  then have "m * 10 ^ nat (e - ?E) \<le> round_half_even (q / 10 powi ?E)" by (rule rhe_ge_int)
  then have "(of_int (m * 10 ^ nat (e - ?E)) :: rat) \<le> of_int (round_half_even (q / 10 powi ?E))"
    by (simp only: of_int_le_iff)
  then have "(of_int (m * 10 ^ nat (e - ?E)) :: rat) * 10 powi ?E
               \<le> of_int (round_half_even (q / 10 powi ?E)) * 10 powi ?E"
    using pos by (simp only: mult_le_cancel_right_pos)
  moreover have "(of_int (m * 10 ^ nat (e - ?E)) :: rat) * 10 powi ?E = of_int m * 10 powi e"
    unfolding p10_shift [OF assms(3), symmetric] using pos by simp
  ultimately have "of_int m * 10 powi e
      \<le> (of_int (round_half_even (q / 10 powi ?E)) :: rat) * 10 powi ?E" by (simp only:)
  then show ?thesis using assms(1) by (simp only: round_coeff_def if_False)
qed

lemma round_coeff_nonneg: "0 \<le> q \<Longrightarrow> 0 \<le> round_coeff q"
  using round_coeff_ge_grid [of q 0 "exp_min q"] by (cases "q = 0") (simp_all add: round_coeff_def)

lemma round_coeff_le_p10:
  assumes "0 < q" and "q \<le> 10 powi k" and "Etiny \<le> k"
  shows "round_coeff q \<le> 10 powi k"
proof -
  from assms have "exp_min q \<le> k" by (intro exp_min_le) simp_all
  with round_coeff_le_grid [of q 1 k] assms show ?thesis by simp
qed

lemma round_coeff_ge_p10:
  assumes "10 powi k \<le> q" and "Etiny \<le> k"
  shows "10 powi k \<le> round_coeff q"
proof -
  have p: "(0::rat) < 10 powi k" by (rule p10_pos)
  with assms(1) have q: "0 < q" by linarith
  then have q0: "q \<noteq> 0" by simp
  have "(10::rat) powi k \<le> \<bar>q\<bar>" using assms(1) q by simp
  also have "\<bar>q\<bar> < 10 powi (adjusted q + 1)" by (rule adjusted_bounds (2) [OF q0])
  finally have k: "k \<le> adjusted q" by (simp add: p10_less_iff)
  have "(10::rat) powi adjusted q \<le> q" using adjusted_bounds (1) [OF q0] q by simp
  moreover have "exp_min q \<le> adjusted q" using k assms(2) by (simp add: exp_min_def prec_def)
  ultimately have "(10::rat) powi adjusted q \<le> round_coeff q"
    using round_coeff_ge_grid [of q 1 "adjusted q"] q0 by simp
  moreover have "(10::rat) powi k \<le> 10 powi adjusted q" using k by (simp only: p10_le_iff)
  ultimately show ?thesis by linarith
qed

lemma round_coeff_pos:
  assumes "10 powi Etiny \<le> q"
  shows "0 < round_coeff q"
proof -
  have "(10::rat) powi Etiny \<le> round_coeff q" using assms by (rule round_coeff_ge_p10) simp
  moreover have "(0::rat) < 10 powi Etiny" by (rule p10_pos)
  ultimately show ?thesis by linarith
qed

lemma round_coeff_mono:
  assumes "0 \<le> x" and "x \<le> y"
  shows "round_coeff x \<le> round_coeff y"
proof (cases "x = 0")
  case True
  with assms round_coeff_nonneg [of y] show ?thesis by (simp add: round_coeff_def)
next
  case False
  with assms have x: "0 < x" and y: "0 < y" by simp_all
  then have x0: "x \<noteq> 0" and y0: "y \<noteq> 0" by simp_all
  from x y assms(2) have "\<bar>x\<bar> \<le> \<bar>y\<bar>" by simp
  note le = exp_min_mono [OF x0 this]
  show ?thesis
  proof (cases "exp_min x = exp_min y")
    case True
    let ?E = "exp_min y"
    have pos: "(0::rat) < 10 powi ?E" by (rule p10_pos)
    from assms(2) pos have "x / 10 powi ?E \<le> y / 10 powi ?E" by (simp add: divide_right_mono)
    then have "round_half_even (x / 10 powi ?E) \<le> round_half_even (y / 10 powi ?E)"
      by (rule rhe_mono)
    then have "(of_int (round_half_even (x / 10 powi ?E)) :: rat)
                 \<le> of_int (round_half_even (y / 10 powi ?E))" by (simp only: of_int_le_iff)
    then have "(of_int (round_half_even (x / 10 powi ?E)) :: rat) * 10 powi ?E
                 \<le> of_int (round_half_even (y / 10 powi ?E)) * 10 powi ?E"
      using pos by (simp only: mult_le_cancel_right_pos)
    then show ?thesis using x0 y0 True by (simp only: round_coeff_def if_False)
  next
    case False
    with le have lt: "exp_min x < exp_min y" by simp
    have "Etiny \<le> exp_min x" by (rule Etiny_le_exp_min)
    with lt have Ey: "exp_min y = adjusted y - (prec - 1)" by (simp add: exp_min_def max_def split: if_splits)
    then have Ey_le: "exp_min y \<le> adjusted y" by (simp add: prec_def)
    have "adjusted x - (prec - 1) \<le> exp_min x" by (simp add: exp_min_def)
    with lt Ey have adj: "adjusted x + 1 \<le> adjusted y" by simp
    have "x < 10 powi (adjusted x + 1)" using adjusted_bounds (2) [OF x0] x by simp
    also have "\<dots> \<le> 10 powi adjusted y" using adj by (simp only: p10_le_iff)
    finally have "x \<le> of_int 1 * 10 powi adjusted y" by simp
    moreover have "exp_min x \<le> adjusted y" using lt Ey_le by simp
    ultimately have 1: "round_coeff x \<le> of_int 1 * 10 powi adjusted y"
      by (rule round_coeff_le_grid [OF x0])
    have "of_int 1 * 10 powi adjusted y \<le> y" using adjusted_bounds (1) [OF y0] y by simp
    then have 2: "of_int 1 * 10 powi adjusted y \<le> round_coeff y"
      using Ey_le by (rule round_coeff_ge_grid [OF y0])
    from 1 2 show ?thesis by linarith
  qed
qed

lemma ctx_round_Inr_iff:
  "ctx_round q = Inr r \<longleftrightarrow> r = round_coeff q \<and> (round_coeff q = 0 \<or> adjusted (round_coeff q) \<le> Emax)"
  by (auto simp: ctx_round_def Let_def)

lemma ctx_round_0 [simp]: "ctx_round 0 = Inr 0"
  by (simp add: ctx_round_def round_coeff_def)

lemma ctx_round_le_representable:
  assumes "0 \<le> q" and "q \<le> v" and "ctx_round v = Inr v"
  shows "\<exists>r. ctx_round q = Inr r \<and> 0 \<le> r \<and> r \<le> v"
proof -
  from assms(3) have v: "round_coeff v = v" unfolding ctx_round_Inr_iff by simp
  from assms(3) have "round_coeff v = 0 \<or> adjusted (round_coeff v) \<le> Emax"
    unfolding ctx_round_Inr_iff by blast
  then have ov: "v = 0 \<or> adjusted v \<le> Emax" unfolding v .
  from round_coeff_mono [OF assms(1,2)] v have le: "round_coeff q \<le> v" by simp
  from assms(1) have ge: "0 \<le> round_coeff q" by (rule round_coeff_nonneg)
  have "round_coeff q = 0 \<or> adjusted (round_coeff q) \<le> Emax"
  proof (cases "round_coeff q = 0")
    case True then show ?thesis by simp
  next
    case False
    with ge le have "\<bar>round_coeff q\<bar> \<le> \<bar>v\<bar>" and "v \<noteq> 0" by simp_all
    with adjusted_mono [OF False this(1)] ov show ?thesis by simp
  qed
  with le ge show ?thesis by (simp add: ctx_round_Inr_iff)
qed

lemma ctx_round_mono:
  assumes "0 \<le> x" and "x \<le> y" and "ctx_round x = Inr rx" and "ctx_round y = Inr ry"
  shows "rx \<le> ry"
  using round_coeff_mono [OF assms(1,2)] assms(3,4) by (simp add: ctx_round_Inr_iff)

lemma ctx_round_range:
  assumes "10 powi lo \<le> q" and "q \<le> 10 powi hi" and "Etiny \<le> lo" and "hi \<le> Emax"
  shows "\<exists>r. ctx_round q = Inr r \<and> 10 powi lo \<le> r \<and> r \<le> 10 powi hi"
proof -
  have "(0::rat) < 10 powi lo" by (rule p10_pos)
  with assms(1) have q: "0 < q" by linarith
  from assms(1,2) have "(10::rat) powi lo \<le> 10 powi hi" by linarith
  then have "lo \<le> hi" by (simp only: p10_le_iff)
  with assms(3) have "Etiny \<le> hi" by simp
  with q assms(2) have hi: "round_coeff q \<le> 10 powi hi" by (intro round_coeff_le_p10)
  from assms(1,3) have lo: "10 powi lo \<le> round_coeff q" by (rule round_coeff_ge_p10)
  with \<open>(0::rat) < 10 powi lo\<close> have pos: "0 < round_coeff q" by linarith
  then have ne: "round_coeff q \<noteq> 0" by simp
  have "(10::rat) powi adjusted (round_coeff q) \<le> \<bar>round_coeff q\<bar>"
    by (rule adjusted_bounds (1) [OF ne])
  also have "\<dots> \<le> 10 powi hi" using hi pos by simp
  finally have "adjusted (round_coeff q) \<le> hi" by (simp only: p10_le_iff)
  with assms(4) have "adjusted (round_coeff q) \<le> Emax" by simp
  with lo hi show ?thesis by (simp add: ctx_round_Inr_iff)
qed

lemma ctx_round_eval:
  assumes "10 ^ 27 * 10 powi e \<le> \<bar>q\<bar>" and "\<bar>q\<bar> < 10 ^ 28 * 10 powi e"
    and "\<bar>q / 10 powi e - of_int n\<bar> < 1 / 2"
    and "Etiny \<le> e" and "e + 28 \<le> Emax"
  shows "ctx_round q = Inr (of_int n * 10 powi e)"
proof -
  have p27: "(10::rat) ^ 27 * 10 powi e = 10 powi (e + 27)"
    by (simp only: p10_add power_int_of_nat [symmetric]) simp
  have p28: "(10::rat) ^ 28 * 10 powi e = 10 powi (e + 27 + 1)"
    by (simp only: p10_add power_int_of_nat [symmetric]) simp
  from assms(1,2) have adj: "adjusted q = e + 27" unfolding p27 p28 by (rule adjusted_unique)
  have "(0::rat) < 10 ^ 27 * 10 powi e" using p10_pos [of e] by simp
  with assms(1) have "0 < \<bar>q\<bar>" by linarith
  then have q0: "q \<noteq> 0" by simp
  have E: "exp_min q = e" using adj assms(4) by (simp add: exp_min_def prec_def)
  have rc: "round_coeff q = of_int n * 10 powi e"
    using q0 rhe_near [OF assms(3)] by (simp add: round_coeff_def E)
  have "\<bar>of_int n\<bar> \<le> \<bar>q / 10 powi e\<bar> + 1 / (2::rat)" using assms(3) by linarith
  also have "\<bar>q / 10 powi e\<bar> = \<bar>q\<bar> / 10 powi e" using p10_pos [of e] by (simp add: abs_of_pos)
  also have "\<dots> < 10 ^ 28" using assms(2) p10_pos [of e] by (simp add: pos_divide_less_eq)
  finally have "\<bar>of_int n :: rat\<bar> < 10 ^ 28 + 1 / 2" by simp
  then have "\<bar>n\<bar> \<le> 10 ^ 28"
  proof -
    assume a: "\<bar>of_int n :: rat\<bar> < 10 ^ 28 + 1 / 2"
    have "(of_int \<bar>n\<bar> :: rat) < of_int (10 ^ 28 + 1)" using a by simp
    then have "\<bar>n\<bar> < 10 ^ 28 + 1" by (simp only: of_int_less_iff)
    then show ?thesis by simp
  qed
  then have "(of_int \<bar>n\<bar> :: rat) \<le> of_int (10 ^ 28)" by (simp only: of_int_le_iff)
  then have nb: "\<bar>of_int n :: rat\<bar> \<le> 10 ^ 28" by simp
  have ov: "round_coeff q = 0 \<or> adjusted (round_coeff q) \<le> Emax"
  proof (cases "round_coeff q = 0")
    case True then show ?thesis by simp
  next
    case False
    have "(10::rat) powi adjusted (round_coeff q) \<le> \<bar>round_coeff q\<bar>"
      by (rule adjusted_bounds (1) [OF False])
    also have "\<dots> = \<bar>of_int n\<bar> * 10 powi e" unfolding rc using p10_pos [of e] by (simp add: abs_mult abs_of_pos)
    also have "\<dots> \<le> 10 ^ 28 * 10 powi e" using nb p10_pos [of e] by (simp add: mult_right_mono)
    also have "\<dots> = 10 powi (e + 28)" by (simp only: p10_add power_int_of_nat [symmetric]) simp
    finally have "adjusted (round_coeff q) \<le> e + 28" by (simp only: p10_le_iff)
    with assms(5) show ?thesis by simp
  qed
  with rc show ?thesis by (simp add: ctx_round_Inr_iff)
qed

declare p10_pos [simp]

lemma p10_nonneg [simp]: "0 \<le> (10::rat) powi e"
  using p10_pos [of e] by (simp only: less_imp_le)

lemma magnitude_nonneg:
  assumes "magnitude lo hi q"
  shows "0 \<le> q"
proof (cases "q = 0")
  case True
  then show ?thesis by simp
next
  case False
  with assms have "10 powi lo \<le> q" by (simp add: magnitude_def)
  moreover have "(0::rat) < 10 powi lo" by (rule p10_pos)
  ultimately show ?thesis by linarith
qed

lemma magnitude_0 [simp]: "magnitude lo hi 0"
  by (simp add: magnitude_def)

lemma magnitude_pos: "magnitude lo hi q \<Longrightarrow> q \<noteq> 0 \<Longrightarrow> 10 powi lo \<le> q \<and> q \<le> 10 powi hi"
  by (simp add: magnitude_def)

lemma magnitude_mult:
  assumes "magnitude a b x" and "magnitude c d y"
  shows "magnitude (a + c) (b + d) (x * y)"
proof (cases "x = 0 \<or> y = 0")
  case True
  then show ?thesis by auto
next
  case False
  with assms have x: "10 powi a \<le> x" "x \<le> 10 powi b" and y: "10 powi c \<le> y" "y \<le> 10 powi d"
    by (auto simp: magnitude_def)
  have pa: "(0::rat) < 10 powi a" and pc: "(0::rat) < 10 powi c" by (rule p10_pos)+
  from pa x have x0: "0 < x" by linarith
  from pc y have y0: "0 < y" by linarith
  have "(10::rat) powi a * 10 powi c \<le> x * y"
    using x(1) y(1) x0 y0 by (intro mult_mono) simp_all
  moreover have "x * y \<le> 10 powi b * 10 powi d"
    using x(2) y(2) x0 y0 by (intro mult_mono) simp_all
  ultimately show ?thesis by (simp add: magnitude_def p10_add)
qed

lemma magnitude_add:
  assumes "magnitude a b x" and "magnitude a b y"
  shows "magnitude a (b + 1) (x + y)"
proof (cases "x = 0 \<and> y = 0")
  case True
  then show ?thesis by simp
next
  case False
  note nx = magnitude_nonneg [OF assms(1)] and ny = magnitude_nonneg [OF assms(2)]
  have pb: "(0::rat) < 10 powi b" by (rule p10_pos)
  have ux: "x \<le> 10 powi b" using assms(1) pb by (auto simp: magnitude_def)
  have uy: "y \<le> 10 powi b" using assms(2) pb by (auto simp: magnitude_def)
  have "x + y \<le> 2 * 10 powi b" using ux uy by simp
  also have "\<dots> \<le> 10 * 10 powi b" using pb by simp
  also have "\<dots> = 10 powi (b + 1)" by (simp add: p10_add)
  finally have hi: "x + y \<le> 10 powi (b + 1)" .
  from False have "x \<noteq> 0 \<or> y \<noteq> 0" by simp
  then have "10 powi a \<le> x + y"
  proof
    assume "x \<noteq> 0"
    with assms(1) have "10 powi a \<le> x" by (simp add: magnitude_def)
    with ny show ?thesis by simp
  next
    assume "y \<noteq> 0"
    with assms(2) have "10 powi a \<le> y" by (simp add: magnitude_def)
    with nx show ?thesis by simp
  qed
  with hi show ?thesis by (simp add: magnitude_def)
qed

lemma magnitude_divide:
  assumes "magnitude a b x" and "10 powi c \<le> y" and "y \<le> 10 powi d"
  shows "magnitude (a - d) (b - c) (x / y)"
proof (cases "x = 0")
  case True
  then show ?thesis by simp
next
  case False
  with assms(1) have x: "10 powi a \<le> x" "x \<le> 10 powi b" by (auto simp: magnitude_def)
  have pa: "(0::rat) < 10 powi a" and pc: "(0::rat) < 10 powi c" by (rule p10_pos)+
  from pc assms(2) have y0: "0 < y" by linarith
  from pa x have x0: "0 < x" by linarith
  have "(10::rat) powi a / 10 powi d \<le> x / y"
    using x(1) assms(3) y0 x0 by (intro frac_le) simp_all
  moreover have "x / y \<le> 10 powi b / 10 powi c"
    using x(2) assms(2) x0 y0 by (intro frac_le) simp_all
  ultimately show ?thesis by (simp add: magnitude_def p10_diff)
qed

lemma magnitude_weaken:
  assumes "magnitude a b x" and "a' \<le> a" and "b \<le> b'"
  shows "magnitude a' b' x"
proof (cases "x = 0")
  case True
  then show ?thesis by simp
next
  case False
  with assms(1) have x: "10 powi a \<le> x" "x \<le> 10 powi b" by (auto simp: magnitude_def)
  have "(10::rat) powi a' \<le> 10 powi a" using assms(2) by (simp only: p10_le_iff)
  moreover have "(10::rat) powi b \<le> 10 powi b'" using assms(3) by (simp only: p10_le_iff)
  ultimately show ?thesis using x by (simp add: magnitude_def)
qed

lemma ctx_round_magnitude:
  assumes "magnitude lo hi q" and "Etiny \<le> lo" and "hi \<le> Emax"
  shows "ctx_round q = Inr (round_coeff q)" and "magnitude lo hi (round_coeff q)"
    and "round_coeff q = 0 \<longleftrightarrow> q = 0"
proof -
  have "ctx_round q = Inr (round_coeff q) \<and> magnitude lo hi (round_coeff q) \<and>
          (round_coeff q = 0 \<longleftrightarrow> q = 0)"
  proof (cases "q = 0")
    case True
    then show ?thesis by (simp add: round_coeff_def)
  next
    case False
    with assms(1) have q: "10 powi lo \<le> q" "q \<le> 10 powi hi" by (auto simp: magnitude_def)
    from ctx_round_range [OF q assms(2,3)] obtain r where
      r: "ctx_round q = Inr r" "10 powi lo \<le> r" "r \<le> 10 powi hi" by blast
    from r(1) have rc: "r = round_coeff q" by (simp add: ctx_round_Inr_iff)
    have "(0::rat) < 10 powi lo" by (rule p10_pos)
    with r(2) have "0 < r" by linarith
    then have "r \<noteq> 0" by simp
    with r False show ?thesis unfolding rc by (simp add: magnitude_def)
  qed
  then show "ctx_round q = Inr (round_coeff q)" and "magnitude lo hi (round_coeff q)"
    and "round_coeff q = 0 \<longleftrightarrow> q = 0" by blast+
qed

(*DECLEMMAS*)

section \<open>The index and the loops\<close>

lemma get_pools_fold_index:
  "get_pools (fold index_pool pools d) t = get_pools d t @ concat (map (entries_for t) pools)"
  by (induction pools arbitrary: d)
     (auto simp: get_pools_def index_pool_def setdefault_append_def entries_for_def split: option.splits)

lemma get_pools_by_token:
  "get_pools (pools_by_token pools) t = concat (map (entries_for t) pools)"
  by (simp add: pools_by_token_def get_pools_fold_index) (simp add: get_pools_def)

lemma set_get_pools:
  "set (get_pools (pools_by_token pools) t) = {p \<in> set pools. token_a p = t \<or> token_b p = t}"
  by (auto simp: get_pools_by_token entries_for_def split: if_splits)

lemma appendsD:
  "appends body \<Longrightarrow> body x s = (case body x [] of Inl e \<Rightarrow> Inl e | Inr ys \<Rightarrow> Inr (s @ ys))"
  unfolding appends_def by blast

lemma for_each_appends:
  assumes "appends body"
  shows "for_each xs body s = (case for_each xs body [] of Inl e \<Rightarrow> Inl e | Inr ys \<Rightarrow> Inr (s @ ys))"
proof (induction xs arbitrary: s)
  case Nil
  show ?case by simp
next
  case (Cons x xs)
  show ?case
  proof (cases "body x []")
    case (Inl e)
    then show ?thesis using appendsD [OF assms, of x s] by simp
  next
    case (Inr ys)
    have 1: "body x s = Inr (s @ ys)" using appendsD [OF assms, of x s] Inr by simp
    show ?thesis
      using Cons.IH [of "s @ ys"] Cons.IH [of ys] 1 Inr
      by (auto split: sum.splits)
  qed
qed

lemma for_each_Cons_appends:
  assumes "appends body"
  shows "for_each (x # xs) body [] =
           (case body x [] of Inl e \<Rightarrow> Inl e
            | Inr ys \<Rightarrow> (case for_each xs body [] of Inl e \<Rightarrow> Inl e | Inr zs \<Rightarrow> Inr (ys @ zs)))"
proof (cases "body x []")
  case (Inl e)
  then show ?thesis by simp
next
  case (Inr ys)
  then show ?thesis using for_each_appends [OF assms, of xs ys] by simp
qed

lemma for_each_Inr_iff:
  assumes "appends body"
  shows "for_each xs body [] = Inr zs \<longleftrightarrow>
           (\<forall>x \<in> set xs. \<exists>ys. body x [] = Inr ys) \<and> zs = concat (map (\<lambda>x. projr (body x [])) xs)"
proof (induction xs arbitrary: zs)
  case Nil
  show ?case by auto
next
  case (Cons x xs)
  note step = for_each_Cons_appends [OF assms, of x xs]
  show ?case
  proof (cases "body x []")
    case (Inl e)
    with step have "for_each (x # xs) body [] = Inl e" by simp
    with Inl show ?thesis by auto
  next
    case ys: (Inr ys)
    show ?thesis
    proof (cases "for_each xs body []")
      case (Inl e)
      with Cons.IH [of "concat (map (\<lambda>x. projr (body x [])) xs)"]
      have "\<not> (\<forall>x \<in> set xs. \<exists>ys. body x [] = Inr ys)" by simp
      moreover from step Inl ys have "for_each (x # xs) body [] = Inl e" by simp
      ultimately show ?thesis by auto
    next
      case (Inr ws)
      with Cons.IH [of ws] have all: "\<forall>x \<in> set xs. \<exists>ys. body x [] = Inr ys"
        and ws: "ws = concat (map (\<lambda>x. projr (body x [])) xs)" by simp_all
      from step Inr ys have "for_each (x # xs) body [] = Inr (ys @ ws)" by simp
      with all ws ys show ?thesis by auto
    qed
  qed
qed

lemma for_each_member:
  assumes "appends body" and "for_each xs body [] = Inr zs" and "z \<in> set zs"
  shows "\<exists>x \<in> set xs. \<exists>ys. body x [] = Inr ys \<and> z \<in> set ys"
  using assms(2,3) unfolding for_each_Inr_iff [OF assms(1)] by fastforce

lemma appends_third_hop: "appends (third_hop base_token amount_in min_profit tok1 tok2 amt2)"
  by (auto simp: appends_def third_hop_def split: sum.splits)

lemma appends_second_hop: "appends (second_hop d base_token amount_in min_profit tok1 amt1)"
  unfolding appends_def
proof (intro allI)
  fix p2 s
  let ?tok2 = "other_token p2 tok1"
  show "second_hop d base_token amount_in min_profit tok1 amt1 p2 s =
          (case second_hop d base_token amount_in min_profit tok1 amt1 p2 [] of
             Inl e \<Rightarrow> Inl e | Inr ys \<Rightarrow> Inr (s @ ys))"
  proof (cases "simulate_swap amt1 p2 tok1")
    case (Inl e)
    then show ?thesis by (simp add: second_hop_def Let_def)
  next
    case (Inr amt2)
    have "for_each (get_pools d ?tok2) (third_hop base_token amount_in min_profit tok1 ?tok2 amt2) s =
            (case for_each (get_pools d ?tok2) (third_hop base_token amount_in min_profit tok1 ?tok2 amt2) [] of
               Inl e \<Rightarrow> Inl e | Inr ys \<Rightarrow> Inr (s @ ys))"
      by (rule for_each_appends [OF appends_third_hop])
    with Inr show ?thesis by (simp add: second_hop_def Let_def)
  qed
qed

lemma appends_first_hop: "appends (first_hop d base_token amount_in min_profit)"
  unfolding appends_def
proof (intro allI)
  fix p1 s
  let ?tok1 = "other_token p1 base_token"
  show "first_hop d base_token amount_in min_profit p1 s =
          (case first_hop d base_token amount_in min_profit p1 [] of
             Inl e \<Rightarrow> Inl e | Inr ys \<Rightarrow> Inr (s @ ys))"
  proof (cases "simulate_swap amount_in p1 base_token")
    case (Inl e)
    then show ?thesis by (simp add: first_hop_def Let_def)
  next
    case (Inr amt1)
    have "for_each (get_pools d ?tok1) (second_hop d base_token amount_in min_profit ?tok1 amt1) s =
            (case for_each (get_pools d ?tok1) (second_hop d base_token amount_in min_profit ?tok1 amt1) [] of
               Inl e \<Rightarrow> Inl e | Inr ys \<Rightarrow> Inr (s @ ys))"
      by (rule for_each_appends [OF appends_second_hop])
    with Inr show ?thesis by (simp add: first_hop_def Let_def)
  qed
qed

lemma third_hop_origin:
  assumes "third_hop base_token amount_in min_profit tok1 tok2 amt2 p3 [] = Inr ys" and "opp \<in> set ys"
  shows "(base_token = token_a p3 \<or> base_token = token_b p3) \<and>
         (\<exists>amt3 profit. simulate_swap amt2 p3 tok2 = Inr amt3 \<and> dec_sub amt3 amount_in = Inr profit \<and>
            min_profit \<le> profit \<and> opp = opportunity_dict base_token tok1 tok2 amt3 profit)"
  using assms
  by (auto simp: third_hop_def split: if_splits sum.splits)

lemma second_hop_origin:
  assumes "second_hop d base_token amount_in min_profit tok1 amt1 p2 [] = Inr ys" and "opp \<in> set ys"
  shows "other_token p2 tok1 \<noteq> base_token \<and>
         (\<exists>amt2 p3 amt3 profit. simulate_swap amt1 p2 tok1 = Inr amt2 \<and> 0 < amt2 \<and>
            p3 \<in> set (get_pools d (other_token p2 tok1)) \<and>
            (base_token = token_a p3 \<or> base_token = token_b p3) \<and>
            simulate_swap amt2 p3 (other_token p2 tok1) = Inr amt3 \<and> dec_sub amt3 amount_in = Inr profit \<and>
            min_profit \<le> profit \<and> opp = opportunity_dict base_token tok1 (other_token p2 tok1) amt3 profit)"
proof -
  from assms have ne: "other_token p2 tok1 \<noteq> base_token"
    by (auto simp: second_hop_def Let_def split: if_splits)
  from assms ne obtain amt2 where a2: "simulate_swap amt1 p2 tok1 = Inr amt2"
    by (cases "simulate_swap amt1 p2 tok1") (auto simp: second_hop_def Let_def)
  from assms ne a2 have pos: "0 < amt2"
    by (auto simp: second_hop_def Let_def split: if_splits)
  from assms ne a2 pos have
    "for_each (get_pools d (other_token p2 tok1))
       (third_hop base_token amount_in min_profit tok1 (other_token p2 tok1) amt2) [] = Inr ys"
    by (simp add: second_hop_def Let_def)
  from for_each_member [OF appends_third_hop this assms(2)]
  obtain p3 zs where "p3 \<in> set (get_pools d (other_token p2 tok1))"
    and "third_hop base_token amount_in min_profit tok1 (other_token p2 tok1) amt2 p3 [] = Inr zs"
    and "opp \<in> set zs" by blast
  with third_hop_origin [OF this(2,3)] ne a2 pos show ?thesis by blast
qed

lemma first_hop_origin:
  assumes "first_hop d base_token amount_in min_profit p1 [] = Inr ys" and "opp \<in> set ys"
  shows "\<exists>amt1 p2 amt2 p3 amt3 profit.
            simulate_swap amount_in p1 base_token = Inr amt1 \<and> 0 < amt1 \<and>
            p2 \<in> set (get_pools d (other_token p1 base_token)) \<and>
            other_token p2 (other_token p1 base_token) \<noteq> base_token \<and>
            simulate_swap amt1 p2 (other_token p1 base_token) = Inr amt2 \<and> 0 < amt2 \<and>
            p3 \<in> set (get_pools d (other_token p2 (other_token p1 base_token))) \<and>
            (base_token = token_a p3 \<or> base_token = token_b p3) \<and>
            simulate_swap amt2 p3 (other_token p2 (other_token p1 base_token)) = Inr amt3 \<and>
            dec_sub amt3 amount_in = Inr profit \<and> min_profit \<le> profit \<and>
            opp = opportunity_dict base_token (other_token p1 base_token)
                    (other_token p2 (other_token p1 base_token)) amt3 profit"
proof -
  from assms obtain amt1 where a1: "simulate_swap amount_in p1 base_token = Inr amt1"
    by (cases "simulate_swap amount_in p1 base_token") (auto simp: first_hop_def Let_def)
  from assms a1 have pos: "0 < amt1"
    by (auto simp: first_hop_def Let_def split: if_splits)
  from assms a1 pos have
    "for_each (get_pools d (other_token p1 base_token))
       (second_hop d base_token amount_in min_profit (other_token p1 base_token) amt1) [] = Inr ys"
    by (simp add: first_hop_def Let_def)
  from for_each_member [OF appends_second_hop this assms(2)]
  obtain p2 zs where p2: "p2 \<in> set (get_pools d (other_token p1 base_token))"
    and "second_hop d base_token amount_in min_profit (other_token p1 base_token) amt1 p2 [] = Inr zs"
    and "opp \<in> set zs" by blast
  from second_hop_origin [OF this(2,3)] a1 pos p2 show ?thesis by blast
qed

lemma opportunity_origin:
  assumes "find_arbitrage_opportunities pools base_token amount_in min_profit = Inr opps"
    and "opp \<in> set opps"
  shows "\<exists>p1 amt1 p2 amt2 p3 amt3 profit.
            p1 \<in> set pools \<and> (token_a p1 = base_token \<or> token_b p1 = base_token) \<and>
            simulate_swap amount_in p1 base_token = Inr amt1 \<and> 0 < amt1 \<and>
            p2 \<in> set pools \<and>
            (token_a p2 = other_token p1 base_token \<or> token_b p2 = other_token p1 base_token) \<and>
            other_token p2 (other_token p1 base_token) \<noteq> base_token \<and>
            simulate_swap amt1 p2 (other_token p1 base_token) = Inr amt2 \<and> 0 < amt2 \<and>
            p3 \<in> set pools \<and>
            (token_a p3 = other_token p2 (other_token p1 base_token) \<or>
             token_b p3 = other_token p2 (other_token p1 base_token)) \<and>
            (base_token = token_a p3 \<or> base_token = token_b p3) \<and>
            simulate_swap amt2 p3 (other_token p2 (other_token p1 base_token)) = Inr amt3 \<and>
            dec_sub amt3 amount_in = Inr profit \<and> min_profit \<le> profit \<and>
            opp = opportunity_dict base_token (other_token p1 base_token)
                    (other_token p2 (other_token p1 base_token)) amt3 profit"
proof -
  let ?d = "pools_by_token pools"
  from assms(1) have
    "for_each (get_pools ?d base_token) (first_hop ?d base_token amount_in min_profit) [] = Inr opps"
    by (simp add: find_arbitrage_opportunities_def Let_def)
  from for_each_member [OF appends_first_hop this assms(2)]
  obtain p1 ys where p1: "p1 \<in> set (get_pools ?d base_token)"
    and "first_hop ?d base_token amount_in min_profit p1 [] = Inr ys" and "opp \<in> set ys"
    by blast
  from first_hop_origin [OF this(2,3)] obtain amt1 p2 amt2 p3 amt3 profit where
    f: "simulate_swap amount_in p1 base_token = Inr amt1" "0 < amt1"
       "p2 \<in> set (get_pools ?d (other_token p1 base_token))"
       "other_token p2 (other_token p1 base_token) \<noteq> base_token"
       "simulate_swap amt1 p2 (other_token p1 base_token) = Inr amt2" "0 < amt2"
       "p3 \<in> set (get_pools ?d (other_token p2 (other_token p1 base_token)))"
       "base_token = token_a p3 \<or> base_token = token_b p3"
       "simulate_swap amt2 p3 (other_token p2 (other_token p1 base_token)) = Inr amt3"
       "dec_sub amt3 amount_in = Inr profit" "min_profit \<le> profit"
       "opp = opportunity_dict base_token (other_token p1 base_token)
                (other_token p2 (other_token p1 base_token)) amt3 profit"
    by blast
  from p1 have 1: "p1 \<in> set pools" "token_a p1 = base_token \<or> token_b p1 = base_token"
    by (simp_all add: set_get_pools)
  from f(3) have 2: "p2 \<in> set pools"
    "token_a p2 = other_token p1 base_token \<or> token_b p2 = other_token p1 base_token"
    by (simp_all add: set_get_pools)
  from f(7) have 3: "p3 \<in> set pools"
    "token_a p3 = other_token p2 (other_token p1 base_token) \<or>
     token_b p3 = other_token p2 (other_token p1 base_token)"
    by (simp_all add: set_get_pools)
  from 1 2 3 f show ?thesis by blast
qed

lemma ctx_round_evalI:
  assumes "10 ^ 27 * 10 powi e \<le> \<bar>q\<bar>" and "\<bar>q\<bar> < 10 ^ 28 * 10 powi e"
    and "\<bar>q / 10 powi e - of_int n\<bar> < 1 / 2"
    and "Etiny \<le> e" and "e + 28 \<le> Emax" and "r = of_int n * 10 powi e"
  shows "ctx_round q = Inr r"
  unfolding assms(6) using assms(1-5) by (rule ctx_round_eval)

lemma example_hop_a1:
  "swap_formula 10 0 1000 1000 = Inr (9900990099009900990099009901 / 10 ^ 27)"
proof -
  have s1: "dec_sub 1 0 = Inr 1"
    unfolding dec_sub_def
    by (rule ctx_round_evalI [where n = "1000000000000000000000000000" and e = "-27"]) (simp_all add: Etiny_def Emin_def Emax_def prec_def)
  have s2: "dec_mul 10 1 = Inr 10"
    unfolding dec_mul_def
    by (rule ctx_round_evalI [where n = "1000000000000000000000000000" and e = "-26"]) (simp_all add: Etiny_def Emin_def Emax_def prec_def)
  have s3: "dec_mul 10 1000 = Inr 10000"
    unfolding dec_mul_def
    by (rule ctx_round_evalI [where n = "1000000000000000000000000000" and e = "-23"]) (simp_all add: Etiny_def Emin_def Emax_def prec_def)
  have s4: "dec_add 1000 10 = Inr 1010"
    unfolding dec_add_def
    by (rule ctx_round_evalI [where n = "1010000000000000000000000000" and e = "-24"]) (simp_all add: Etiny_def Emin_def Emax_def prec_def)
  have s5: "dec_div 10000 1010 = Inr (9900990099009900990099009901 / 10 ^ 27)"
    proof -
    have "ctx_round (10000 / 1010) = Inr (9900990099009900990099009901 / 10 ^ 27)"
      by (rule ctx_round_evalI [where n = "9900990099009900990099009901" and e = "-27"]) (simp_all add: Etiny_def Emin_def Emax_def prec_def)
    then show ?thesis by (simp add: dec_div_def)
  qed
  show ?thesis
    by (simp only: swap_formula_def s1 s2 s3 s4 s5 sum.case)
qed

lemma example_hop_a2:
  "swap_formula (9900990099009900990099009901 / 10 ^ 27) 0 1000 1000 = Inr (9803921568627450980392156862 / 10 ^ 27)"
proof -
  have s1: "dec_sub 1 0 = Inr 1"
    unfolding dec_sub_def
    by (rule ctx_round_evalI [where n = "1000000000000000000000000000" and e = "-27"]) (simp_all add: Etiny_def Emin_def Emax_def prec_def)
  have s2: "dec_mul (9900990099009900990099009901 / 10 ^ 27) 1 = Inr (9900990099009900990099009901 / 10 ^ 27)"
    unfolding dec_mul_def
    by (rule ctx_round_evalI [where n = "9900990099009900990099009901" and e = "-27"]) (simp_all add: Etiny_def Emin_def Emax_def prec_def)
  have s3: "dec_mul (9900990099009900990099009901 / 10 ^ 27) 1000 = Inr (9900990099009900990099009901 / 10 ^ 24)"
    unfolding dec_mul_def
    by (rule ctx_round_evalI [where n = "9900990099009900990099009901" and e = "-24"]) (simp_all add: Etiny_def Emin_def Emax_def prec_def)
  have s4: "dec_add 1000 (9900990099009900990099009901 / 10 ^ 27) = Inr (100990099009900990099009901 / 10 ^ 23)"
    unfolding dec_add_def
    by (rule ctx_round_evalI [where n = "1009900990099009900990099010" and e = "-24"]) (simp_all add: Etiny_def Emin_def Emax_def prec_def)
  have s5: "dec_div (9900990099009900990099009901 / 10 ^ 24) (100990099009900990099009901 / 10 ^ 23) = Inr (9803921568627450980392156862 / 10 ^ 27)"
    proof -
    have "ctx_round ((9900990099009900990099009901 / 10 ^ 24) / (100990099009900990099009901 / 10 ^ 23)) = Inr (9803921568627450980392156862 / 10 ^ 27)"
      by (rule ctx_round_evalI [where n = "9803921568627450980392156862" and e = "-27"]) (simp_all add: Etiny_def Emin_def Emax_def prec_def)
    then show ?thesis by (simp add: dec_div_def)
  qed
  show ?thesis
    by (simp only: swap_formula_def s1 s2 s3 s4 s5 sum.case)
qed

lemma example_hop_a3:
  "swap_formula (9803921568627450980392156862 / 10 ^ 27) 0 1000 2000 = Inr (1941747572815533980582524271 / 10 ^ 26)"
proof -
  have s1: "dec_sub 1 0 = Inr 1"
    unfolding dec_sub_def
    by (rule ctx_round_evalI [where n = "1000000000000000000000000000" and e = "-27"]) (simp_all add: Etiny_def Emin_def Emax_def prec_def)
  have s2: "dec_mul (9803921568627450980392156862 / 10 ^ 27) 1 = Inr (9803921568627450980392156862 / 10 ^ 27)"
    unfolding dec_mul_def
    by (rule ctx_round_evalI [where n = "9803921568627450980392156862" and e = "-27"]) (simp_all add: Etiny_def Emin_def Emax_def prec_def)
  have s3: "dec_mul (9803921568627450980392156862 / 10 ^ 27) 2000 = Inr (1960784313725490196078431372 / 10 ^ 23)"
    unfolding dec_mul_def
    by (rule ctx_round_evalI [where n = "1960784313725490196078431372" and e = "-23"]) (simp_all add: Etiny_def Emin_def Emax_def prec_def)
  have s4: "dec_add 1000 (9803921568627450980392156862 / 10 ^ 27) = Inr (1009803921568627450980392157 / 10 ^ 24)"
    unfolding dec_add_def
    by (rule ctx_round_evalI [where n = "1009803921568627450980392157" and e = "-24"]) (simp_all add: Etiny_def Emin_def Emax_def prec_def)
  have s5: "dec_div (1960784313725490196078431372 / 10 ^ 23) (1009803921568627450980392157 / 10 ^ 24) = Inr (1941747572815533980582524271 / 10 ^ 26)"
    proof -
    have "ctx_round ((1960784313725490196078431372 / 10 ^ 23) / (1009803921568627450980392157 / 10 ^ 24)) = Inr (1941747572815533980582524271 / 10 ^ 26)"
      by (rule ctx_round_evalI [where n = "1941747572815533980582524271" and e = "-26"]) (simp_all add: Etiny_def Emin_def Emax_def prec_def)
    then show ?thesis by (simp add: dec_div_def)
  qed
  show ?thesis
    by (simp only: swap_formula_def s1 s2 s3 s4 s5 sum.case)
qed

lemma example_hop_b1:
  "swap_formula 10 0 2000 1000 = Inr (497512437810945273631840796 / 10 ^ 26)"
proof -
  have s1: "dec_sub 1 0 = Inr 1"
    unfolding dec_sub_def
    by (rule ctx_round_evalI [where n = "1000000000000000000000000000" and e = "-27"]) (simp_all add: Etiny_def Emin_def Emax_def prec_def)
  have s2: "dec_mul 10 1 = Inr 10"
    unfolding dec_mul_def
    by (rule ctx_round_evalI [where n = "1000000000000000000000000000" and e = "-26"]) (simp_all add: Etiny_def Emin_def Emax_def prec_def)
  have s3: "dec_mul 10 1000 = Inr 10000"
    unfolding dec_mul_def
    by (rule ctx_round_evalI [where n = "1000000000000000000000000000" and e = "-23"]) (simp_all add: Etiny_def Emin_def Emax_def prec_def)
  have s4: "dec_add 2000 10 = Inr 2010"
    unfolding dec_add_def
    by (rule ctx_round_evalI [where n = "2010000000000000000000000000" and e = "-24"]) (simp_all add: Etiny_def Emin_def Emax_def prec_def)
  have s5: "dec_div 10000 2010 = Inr (497512437810945273631840796 / 10 ^ 26)"
    proof -
    have "ctx_round (10000 / 2010) = Inr (497512437810945273631840796 / 10 ^ 26)"
      by (rule ctx_round_evalI [where n = "4975124378109452736318407960" and e = "-27"]) (simp_all add: Etiny_def Emin_def Emax_def prec_def)
    then show ?thesis by (simp add: dec_div_def)
  qed
  show ?thesis
    by (simp only: swap_formula_def s1 s2 s3 s4 s5 sum.case)
qed

lemma example_hop_b2:
  "swap_formula (497512437810945273631840796 / 10 ^ 26) 0 1000 1000 = Inr (495049504950495049504950495 / 10 ^ 26)"
proof -
  have s1: "dec_sub 1 0 = Inr 1"
    unfolding dec_sub_def
    by (rule ctx_round_evalI [where n = "1000000000000000000000000000" and e = "-27"]) (simp_all add: Etiny_def Emin_def Emax_def prec_def)
  have s2: "dec_mul (497512437810945273631840796 / 10 ^ 26) 1 = Inr (497512437810945273631840796 / 10 ^ 26)"
    unfolding dec_mul_def
    by (rule ctx_round_evalI [where n = "4975124378109452736318407960" and e = "-27"]) (simp_all add: Etiny_def Emin_def Emax_def prec_def)
  have s3: "dec_mul (497512437810945273631840796 / 10 ^ 26) 1000 = Inr (497512437810945273631840796 / 10 ^ 23)"
    unfolding dec_mul_def
    by (rule ctx_round_evalI [where n = "4975124378109452736318407960" and e = "-24"]) (simp_all add: Etiny_def Emin_def Emax_def prec_def)
  have s4: "dec_add 1000 (497512437810945273631840796 / 10 ^ 26) = Inr (1004975124378109452736318408 / 10 ^ 24)"
    unfolding dec_add_def
    by (rule ctx_round_evalI [where n = "1004975124378109452736318408" and e = "-24"]) (simp_all add: Etiny_def Emin_def Emax_def prec_def)
  have s5: "dec_div (497512437810945273631840796 / 10 ^ 23) (1004975124378109452736318408 / 10 ^ 24) = Inr (495049504950495049504950495 / 10 ^ 26)"
    proof -
    have "ctx_round ((497512437810945273631840796 / 10 ^ 23) / (1004975124378109452736318408 / 10 ^ 24)) = Inr (495049504950495049504950495 / 10 ^ 26)"
      by (rule ctx_round_evalI [where n = "4950495049504950495049504950" and e = "-27"]) (simp_all add: Etiny_def Emin_def Emax_def prec_def)
    then show ?thesis by (simp add: dec_div_def)
  qed
  show ?thesis
    by (simp only: swap_formula_def s1 s2 s3 s4 s5 sum.case)
qed

lemma example_hop_b3:
  "swap_formula (495049504950495049504950495 / 10 ^ 26) 0 1000 1000 = Inr (4926108374384236453201970443 / 10 ^ 27)"
proof -
  have s1: "dec_sub 1 0 = Inr 1"
    unfolding dec_sub_def
    by (rule ctx_round_evalI [where n = "1000000000000000000000000000" and e = "-27"]) (simp_all add: Etiny_def Emin_def Emax_def prec_def)
  have s2: "dec_mul (495049504950495049504950495 / 10 ^ 26) 1 = Inr (495049504950495049504950495 / 10 ^ 26)"
    unfolding dec_mul_def
    by (rule ctx_round_evalI [where n = "4950495049504950495049504950" and e = "-27"]) (simp_all add: Etiny_def Emin_def Emax_def prec_def)
  have s3: "dec_mul (495049504950495049504950495 / 10 ^ 26) 1000 = Inr (495049504950495049504950495 / 10 ^ 23)"
    unfolding dec_mul_def
    by (rule ctx_round_evalI [where n = "4950495049504950495049504950" and e = "-24"]) (simp_all add: Etiny_def Emin_def Emax_def prec_def)
  have s4: "dec_add 1000 (495049504950495049504950495 / 10 ^ 26) = Inr (1004950495049504950495049505 / 10 ^ 24)"
    unfolding dec_add_def
    by (rule ctx_round_evalI [where n = "1004950495049504950495049505" and e = "-24"]) (simp_all add: Etiny_def Emin_def Emax_def prec_def)
  have s5: "dec_div (495049504950495049504950495 / 10 ^ 23) (1004950495049504950495049505 / 10 ^ 24) = Inr (4926108374384236453201970443 / 10 ^ 27)"
    proof -
    have "ctx_round ((495049504950495049504950495 / 10 ^ 23) / (1004950495049504950495049505 / 10 ^ 24)) = Inr (4926108374384236453201970443 / 10 ^ 27)"
      by (rule ctx_round_evalI [where n = "4926108374384236453201970443" and e = "-27"]) (simp_all add: Etiny_def Emin_def Emax_def prec_def)
    then show ?thesis by (simp add: dec_div_def)
  qed
  show ?thesis
    by (simp only: swap_formula_def s1 s2 s3 s4 s5 sum.case)
qed

lemma example_profit_a: "dec_sub (1941747572815533980582524271 / 10 ^ 26) 10 = Inr (941747572815533980582524271 / 10 ^ 26)"
  unfolding dec_sub_def
  by (rule ctx_round_evalI [where n = "9417475728155339805825242710" and e = "-27"]) (simp_all add: Etiny_def Emin_def Emax_def prec_def)

lemma example_profit_b: "dec_sub (4926108374384236453201970443 / 10 ^ 27) 10 = Inr (- (5073891625615763546798029557 / 10 ^ 27))"
  unfolding dec_sub_def
  by (rule ctx_round_evalI [where n = "-5073891625615763546798029557" and e = "-27"]) (simp_all add: Etiny_def Emin_def Emax_def prec_def)



lemma simulate_swap_side_a:
  "simulate_swap x \<lparr>token_a = t, token_b = u, reserve_a = ra, reserve_b = rb, fee = Some f\<rparr> t
     = swap_formula x f ra rb"
  by (simp add: simulate_swap_def fee_of_def)

lemma simulate_swap_side_b:
  "t \<noteq> u \<Longrightarrow>
   simulate_swap x \<lparr>token_a = u, token_b = t, reserve_a = ra, reserve_b = rb, fee = Some f\<rparr> t
     = swap_formula x f rb ra"
  by (simp add: simulate_swap_def fee_of_def)

lemmas example_values =
  example_hop_a1 [simplified] example_hop_a2 [simplified] example_hop_a3 [simplified]
  example_hop_b1 [simplified] example_hop_b2 [simplified] example_hop_b3 [simplified]
  example_profit_a [simplified] example_profit_b [simplified]

lemma example_search:
  assumes "base \<noteq> A" and "base \<noteq> B" and "A \<noteq> B"
  shows "find_arbitrage_opportunities
           [\<lparr>token_a = base, token_b = A, reserve_a = 1000, reserve_b = 1000, fee = Some 0\<rparr>,
            \<lparr>token_a = A, token_b = B, reserve_a = 1000, reserve_b = 1000, fee = Some 0\<rparr>,
            \<lparr>token_a = B, token_b = base, reserve_a = 1000, reserve_b = 2000, fee = Some 0\<rparr>]
           base 10 0
         = Inr [opportunity_dict base A B (1941747572815533980582524271 / 10 ^ 26)
                  (941747572815533980582524271 / 10 ^ 26)]"
  using assms
  by (simp add: find_arbitrage_opportunities_def Let_def get_pools_by_token entries_for_def
        first_hop_def second_hop_def third_hop_def other_token_def
        simulate_swap_side_a simulate_swap_side_b example_values)

lemma example_search_all:
  assumes "base \<noteq> A" and "base \<noteq> B" and "A \<noteq> B"
  shows "find_arbitrage_opportunities
           [\<lparr>token_a = base, token_b = A, reserve_a = 1000, reserve_b = 1000, fee = Some 0\<rparr>,
            \<lparr>token_a = A, token_b = B, reserve_a = 1000, reserve_b = 1000, fee = Some 0\<rparr>,
            \<lparr>token_a = B, token_b = base, reserve_a = 1000, reserve_b = 2000, fee = Some 0\<rparr>]
           base 10 (- 6)
         = Inr [opportunity_dict base A B (1941747572815533980582524271 / 10 ^ 26)
                  (941747572815533980582524271 / 10 ^ 26),
                opportunity_dict base B A (4926108374384236453201970443 / 10 ^ 27)
                  (- (5073891625615763546798029557 / 10 ^ 27))]"
  using assms
  by (simp add: find_arbitrage_opportunities_def Let_def get_pools_by_token entries_for_def
        first_hop_def second_hop_def third_hop_def other_token_def
        simulate_swap_side_a simulate_swap_side_b example_values)

lemma for_each_cong:
  assumes "\<And>x s. x \<in> set xs \<Longrightarrow> body x s = body' x s"
  shows "for_each xs body s = for_each xs body' s"
  using assms by (induction xs arbitrary: s) (auto split: sum.splits)

lemma for_each_skip:
  assumes "\<And>s. body q s = Inr s"
  shows "for_each (filter (\<lambda>p. p \<noteq> q) xs) body s = for_each xs body s"
  using assms by (induction xs arbitrary: s) (auto split: sum.splits)

lemma get_pools_removeAll:
  "get_pools (pools_by_token (removeAll q pools)) t
     = filter (\<lambda>p. p \<noteq> q) (get_pools (pools_by_token pools) t)"
  unfolding get_pools_by_token
  by (induction pools) (auto simp: entries_for_def)

lemma get_pools_removeAll_other:
  assumes "t \<noteq> token_a q" and "t \<noteq> token_b q"
  shows "get_pools (pools_by_token (removeAll q pools)) t = get_pools (pools_by_token pools) t"
  unfolding get_pools_by_token using assms
  by (induction pools) (auto simp: entries_for_def)

lemma third_hop_skip:
  assumes "base_token \<noteq> token_a q" and "base_token \<noteq> token_b q"
  shows "third_hop base_token amount_in min_profit tok1 tok2 amt2 q s = Inr s"
  using assms by (simp add: third_hop_def)

lemma find_without_unrelated:
  assumes qa: "token_a q \<noteq> base_token" and qb: "token_b q \<noteq> base_token"
    and far: "\<forall>p \<in> set pools. token_a p = base_token \<or> token_b p = base_token \<longrightarrow>
               token_a q \<notin> {token_a p, token_b p} \<and> token_b q \<notin> {token_a p, token_b p}"
    and same: "removeAll q pools2 = removeAll q pools"
  shows "find_arbitrage_opportunities pools2 base_token amount_in min_profit
           = find_arbitrage_opportunities (removeAll q pools) base_token amount_in min_profit"
proof -
  let ?R = "removeAll q pools"
  let ?d2 = "pools_by_token pools2" and ?dR = "pools_by_token ?R"
  have filt: "get_pools ?dR t = filter (\<lambda>p. p \<noteq> q) (get_pools ?d2 t)" for t
    using get_pools_removeAll [of q pools2 t] same by simp
  have other: "get_pools ?dR t = get_pools ?d2 t" if "t \<noteq> token_a q" "t \<noteq> token_b q" for t
    using get_pools_removeAll_other [OF that, of pools2] same by simp
  have skip: "third_hop base_token amount_in min_profit tok1 tok2 amt2 q s = Inr s" for tok1 tok2 amt2 s
    using qa qb by (intro third_hop_skip) auto
  have l3: "for_each (get_pools ?dR t) (third_hop base_token amount_in min_profit tok1 tok2 amt2) s
          = for_each (get_pools ?d2 t) (third_hop base_token amount_in min_profit tok1 tok2 amt2) s"
    for t tok1 tok2 amt2 s
    unfolding filt by (rule for_each_skip) (rule skip)
  have l2: "second_hop ?dR base_token amount_in min_profit tok1 amt1 p2 s
          = second_hop ?d2 base_token amount_in min_profit tok1 amt1 p2 s" for tok1 amt1 p2 s
    by (simp add: second_hop_def Let_def l3 split: sum.splits)
  have l1: "first_hop ?dR base_token amount_in min_profit p1 s
          = first_hop ?d2 base_token amount_in min_profit p1 s"
    if p1: "p1 \<in> set (get_pools ?dR base_token)" for p1 s
  proof -
    from p1 have "p1 \<in> set pools" and b: "token_a p1 = base_token \<or> token_b p1 = base_token"
      by (auto simp: set_get_pools)
    with far have "token_a q \<notin> {token_a p1, token_b p1}" "token_b q \<notin> {token_a p1, token_b p1}"
      by blast+
    then have "other_token p1 base_token \<noteq> token_a q" "other_token p1 base_token \<noteq> token_b q"
      by (auto simp: other_token_def)
    note eq = other [OF this]
    have
      "for_each (get_pools ?dR (other_token p1 base_token))
         (second_hop ?dR base_token amount_in min_profit (other_token p1 base_token) amt1) s
       = for_each (get_pools ?d2 (other_token p1 base_token))
         (second_hop ?d2 base_token amount_in min_profit (other_token p1 base_token) amt1) s" for amt1
      unfolding eq by (rule for_each_cong) (rule l2)
    then show ?thesis by (simp add: first_hop_def Let_def split: sum.splits)
  qed
  have base: "get_pools ?dR base_token = get_pools ?d2 base_token"
    using qa qb by (intro other) auto
  have "for_each (get_pools ?d2 base_token) (first_hop ?d2 base_token amount_in min_profit) []
      = for_each (get_pools ?dR base_token) (first_hop ?dR base_token amount_in min_profit) []"
    unfolding base [symmetric] by (rule for_each_cong) (simp add: l1)
  then show ?thesis by (simp add: find_arbitrage_opportunities_def Let_def)
qed

lemma same_outcome_refl [simp]: "same_outcome r r"
  by (simp add: same_outcome_def split: sum.splits)

lemma same_outcome_Inr:
  "same_outcome (Inr xs) r' \<longleftrightarrow> (\<exists>ys. r' = Inr ys \<and> mset xs = mset ys)"
  by (cases r') (simp_all add: same_outcome_def)

lemma same_outcome_Inl:
  "same_outcome (Inl e) r' \<longleftrightarrow> (\<exists>e'. r' = Inl e')"
  by (cases r') (simp_all add: same_outcome_def)

lemma mset_get_pools:
  assumes "mset pools' = mset pools"
  shows "mset (get_pools (pools_by_token pools') t) = mset (get_pools (pools_by_token pools) t)"
proof -
  have "mset (concat (map f xs)) = sum_mset (image_mset (\<lambda>x. mset (f x)) (mset xs))"
    for f :: "pool \<Rightarrow> pool list" and xs
    by (induction xs) simp_all
  then show ?thesis using assms by (simp add: get_pools_by_token)
qed

lemma for_each_permuted:
  assumes a: "appends body" and a': "appends body'"
    and perm: "mset ys = mset xs"
    and step: "\<And>x. x \<in> set xs \<Longrightarrow> same_outcome (body x []) (body' x [])"
  shows "same_outcome (for_each xs body []) (for_each ys body' [])"
proof -
  from perm have sets: "set ys = set xs" by (rule mset_eq_setD)
  have sum: "mset (concat (map f zs)) = sum_mset (image_mset (\<lambda>x. mset (f x)) (mset zs))"
    for f :: "'a \<Rightarrow> 'b list" and zs
    by (induction zs) simp_all
  show ?thesis
  proof (cases "\<forall>x \<in> set xs. \<exists>zs. body x [] = Inr zs")
    case True
    then have r: "for_each xs body [] = Inr (concat (map (\<lambda>x. projr (body x [])) xs))"
      by (simp add: for_each_Inr_iff [OF a])
    have all': "\<forall>x \<in> set ys. \<exists>zs. body' x [] = Inr zs"
    proof
      fix x assume "x \<in> set ys"
      with sets have x: "x \<in> set xs" by simp
      with True obtain zs where "body x [] = Inr zs" by blast
      with step [OF x] show "\<exists>zs. body' x [] = Inr zs" by (auto simp: same_outcome_Inr)
    qed
    then have r': "for_each ys body' [] = Inr (concat (map (\<lambda>x. projr (body' x [])) ys))"
      by (simp add: for_each_Inr_iff [OF a'])
    have "mset (projr (body x [])) = mset (projr (body' x []))" if "x \<in># mset xs" for x
    proof -
      from that have x: "x \<in> set xs" by simp
      with True obtain zs where zs: "body x [] = Inr zs" by blast
      with step [OF x] show ?thesis by (auto simp: same_outcome_Inr)
    qed
    then have "image_mset (\<lambda>x. mset (projr (body x []))) (mset xs)
             = image_mset (\<lambda>x. mset (projr (body' x []))) (mset xs)"
      by (intro image_mset_cong) simp
    then show ?thesis unfolding r r' by (simp add: same_outcome_def sum perm)
  next
    case False
    then obtain x where x: "x \<in> set xs" and nx: "\<not> (\<exists>zs. body x [] = Inr zs)" by blast
    from nx obtain e where e: "body x [] = Inl e" by (cases "body x []") auto
    with step [OF x] obtain e' where e': "body' x [] = Inl e'" by (auto simp: same_outcome_Inl)
    from False have "\<not> (\<exists>zs. for_each xs body [] = Inr zs)"
      by (simp add: for_each_Inr_iff [OF a])
    then obtain f where f: "for_each xs body [] = Inl f" by (cases "for_each xs body []") auto
    from e' have "\<not> (\<exists>zs. body' x [] = Inr zs)" by simp
    with x sets have "\<not> (\<forall>x \<in> set ys. \<exists>zs. body' x [] = Inr zs)" by blast
    then have "\<not> (\<exists>zs. for_each ys body' [] = Inr zs)"
      by (simp add: for_each_Inr_iff [OF a'])
    then obtain f' where f': "for_each ys body' [] = Inl f'" by (cases "for_each ys body' []") auto
    from f f' show ?thesis by (simp add: same_outcome_def)
  qed
qed

lemma find_permuted:
  assumes "mset pools' = mset pools"
  shows "same_outcome (find_arbitrage_opportunities pools base_token amount_in min_profit)
           (find_arbitrage_opportunities pools' base_token amount_in min_profit)"
proof -
  let ?d = "pools_by_token pools" and ?d' = "pools_by_token pools'"
  note m = mset_get_pools [OF assms]
  have l3: "same_outcome
      (for_each (get_pools ?d t) (third_hop base_token amount_in min_profit tok1 tok2 amt2) [])
      (for_each (get_pools ?d' t) (third_hop base_token amount_in min_profit tok1 tok2 amt2) [])"
    for t tok1 tok2 amt2
    by (rule for_each_permuted [OF appends_third_hop appends_third_hop m]) simp
  have l2: "same_outcome (second_hop ?d base_token amount_in min_profit tok1 amt1 p2 [])
      (second_hop ?d' base_token amount_in min_profit tok1 amt1 p2 [])" for tok1 amt1 p2
    by (simp add: second_hop_def Let_def l3 split: sum.splits)
  have l2': "same_outcome
      (for_each (get_pools ?d t) (second_hop ?d base_token amount_in min_profit tok1 amt1) [])
      (for_each (get_pools ?d' t) (second_hop ?d' base_token amount_in min_profit tok1 amt1) [])"
    for t tok1 amt1
    by (rule for_each_permuted [OF appends_second_hop appends_second_hop m]) (rule l2)
  have l1: "same_outcome (first_hop ?d base_token amount_in min_profit p1 [])
      (first_hop ?d' base_token amount_in min_profit p1 [])" for p1
    by (simp add: first_hop_def Let_def l2' split: sum.splits)
  have "same_outcome
      (for_each (get_pools ?d base_token) (first_hop ?d base_token amount_in min_profit) [])
      (for_each (get_pools ?d' base_token) (first_hop ?d' base_token amount_in min_profit) [])"
    by (rule for_each_permuted [OF appends_first_hop appends_first_hop m]) (rule l1)
  then show ?thesis by (simp add: find_arbitrage_opportunities_def Let_def)
qed

lemma swap_formula_in_range:
  assumes x: "in_range x" and rin: "in_range rin" and rout: "in_range rout"
    and f: "f < 1" and f1: "in_range (1 - f)"
  shows "swap_formula x f rin rout =
           (if rin = 0 \<and> x = 0 then Inl InvalidOperation
            else Inr (round_coeff
                   (round_coeff (round_coeff (x * round_coeff (1 - f)) * rout) /
                    round_coeff (rin + round_coeff (x * round_coeff (1 - f))))))"
proof -
  let ?K = range_exp
  let ?f1 = "round_coeff (1 - f)"
  let ?aaf = "round_coeff (x * ?f1)"
  let ?num = "round_coeff (?aaf * rout)"
  let ?den = "round_coeff (rin + ?aaf)"
  have E: "Etiny \<le> - ?K" "Etiny \<le> - ?K + - ?K" "Etiny \<le> - ?K + - ?K + - ?K"
    "Etiny \<le> - ?K + - ?K + - ?K - (?K + ?K + 1)"
    "?K \<le> Emax" "?K + ?K \<le> Emax" "?K + ?K + 1 \<le> Emax" "?K + ?K + ?K \<le> Emax"
    "?K + ?K + ?K - (- ?K + - ?K) \<le> Emax"
    by (simp_all add: range_exp_def Etiny_def Emin_def Emax_def prec_def)
  have K0: "- ?K \<le> 0" by (simp add: range_exp_def)
  from f1 have m1: "magnitude (- ?K) ?K (1 - f)" by (simp add: in_range_def)
  note r1 = ctx_round_magnitude [OF m1 E(1) E(5)]
  from f r1(3) have f1_ne: "?f1 \<noteq> 0" by simp
  from x have mx: "magnitude (- ?K) ?K x" by (simp add: in_range_def)
  note m2 = magnitude_mult [OF mx r1(2)]
  note r2 = ctx_round_magnitude [OF m2 E(2) E(6)]
  from r2(3) f1_ne have aaf0: "?aaf = 0 \<longleftrightarrow> x = 0" by simp
  from rout have mo: "magnitude (- ?K) ?K rout" by (simp add: in_range_def)
  note m3 = magnitude_mult [OF r2(2) mo]
  note r3 = ctx_round_magnitude [OF m3 E(3) E(8)]
  from rin have mi: "magnitude (- ?K) ?K rin" by (simp add: in_range_def)
  have mi': "magnitude (- ?K + - ?K) (?K + ?K) rin"
    by (rule magnitude_weaken [OF mi]) (simp_all add: range_exp_def)
  note m4 = magnitude_add [OF mi' r2(2)]
  note r4 = ctx_round_magnitude [OF m4 E(2) E(7)]
  have nn: "0 \<le> rin" "0 \<le> ?aaf"
    using magnitude_nonneg [OF mi] magnitude_nonneg [OF r2(2)] by simp_all
  from r4(3) nn aaf0 have den0: "?den = 0 \<longleftrightarrow> rin = 0 \<and> x = 0" by auto
  have s1: "dec_sub 1 f = Inr ?f1" by (simp add: dec_sub_def r1(1))
  have s2: "dec_mul x ?f1 = Inr ?aaf" by (simp add: dec_mul_def r2(1))
  have s3: "dec_mul ?aaf rout = Inr ?num" by (simp add: dec_mul_def r3(1))
  have s4: "dec_add rin ?aaf = Inr ?den" by (simp add: dec_add_def r4(1))
  have chain: "swap_formula x f rin rout = dec_div ?num ?den"
    by (simp only: swap_formula_def s1 s2 s3 s4 sum.case)
  show ?thesis
  proof (cases "rin = 0 \<and> x = 0")
    case True
    with den0 have d: "?den = 0" by simp
    from True aaf0 have "?aaf = 0" by simp
    then have "?num = 0" by (simp add: round_coeff_def)
    with d True chain show ?thesis by (simp add: dec_div_def)
  next
    case False
    with den0 have d: "?den \<noteq> 0" by simp
    from magnitude_pos [OF r4(2) d] have db: "10 powi (- ?K + - ?K) \<le> ?den"
      "?den \<le> 10 powi (?K + ?K + 1)" by simp_all
    note m5 = magnitude_divide [OF r3(2) db]
    note r5 = ctx_round_magnitude [OF m5 E(4) E(9)]
    from d False chain r5(1) show ?thesis by (simp add: dec_div_def)
  qed
qed

lemma in_rangeI:
  assumes "q = 0 \<or> (1 / 10 ^ 30 \<le> q \<and> q \<le> 10 ^ 30)"
  shows "in_range q"
proof (cases "q = 0")
  case True
  then show ?thesis by (simp add: in_range_def)
next
  case False
  with assms have q: "1 / 10 ^ 30 \<le> q" "q \<le> 10 ^ 30" by simp_all
  have "(10::rat) powi (- range_exp) \<le> 10 powi (- 30)"
    by (simp only: p10_le_iff) (simp add: range_exp_def)
  also have "(10::rat) powi (- 30) = 1 / 10 ^ 30" by (simp add: power_int_minus_divide)
  finally have lo: "10 powi (- range_exp) \<le> q" using q(1) by linarith
  have "(10::rat) ^ 30 = 10 powi 30" by simp
  also have "\<dots> \<le> 10 powi range_exp"
    by (simp only: p10_le_iff) (simp add: range_exp_def)
  finally have "q \<le> 10 powi range_exp" using q(2) by linarith
  with lo show ?thesis by (simp add: in_range_def magnitude_def)
qed

lemma zero_divisor_example:
  "swap_formula 0 (25 / 10 ^ 4) 0 1000 = Inl InvalidOperation"
proof -
  have s1: "dec_sub 1 (25 / 10 ^ 4) = Inr (9975 / 10 ^ 4)"
    unfolding dec_sub_def
    by (rule ctx_round_evalI [where n = "9975000000000000000000000000" and e = "-28"]) (simp_all add: Etiny_def Emin_def Emax_def prec_def)
  have s2: "dec_mul 0 (9975 / 10 ^ 4) = Inr 0"
    by (simp add: dec_mul_def)
  have s3: "dec_mul 0 1000 = Inr 0"
    by (simp add: dec_mul_def)
  have s4: "dec_add 0 0 = Inr 0"
    by (simp add: dec_add_def)
  have s5: "dec_div 0 0 = Inl InvalidOperation"
    by (simp add: dec_div_def)
  show ?thesis
    by (simp only: swap_formula_def s1 s2 s3 s4 s5 sum.case)
qed

lemma zero_divisor_example2:
  "swap_formula 0 (3 / 10 ^ 3) 0 500 = Inl InvalidOperation"
proof -
  have s1: "dec_sub 1 (3 / 10 ^ 3) = Inr (997 / 10 ^ 3)"
    unfolding dec_sub_def
    by (rule ctx_round_evalI [where n = "9970000000000000000000000000" and e = "-28"]) (simp_all add: Etiny_def Emin_def Emax_def prec_def)
  have s2: "dec_mul 0 (997 / 10 ^ 3) = Inr 0"
    by (simp add: dec_mul_def)
  have s3: "dec_mul 0 500 = Inr 0"
    by (simp add: dec_mul_def)
  have s4: "dec_add 0 0 = Inr 0"
    by (simp add: dec_add_def)
  have s5: "dec_div 0 0 = Inl InvalidOperation"
    by (simp add: dec_div_def)
  show ?thesis
    by (simp only: swap_formula_def s1 s2 s3 s4 s5 sum.case)
qed

lemma fee_swap_example:
  "swap_formula 10 (25 / 10 ^ 4) 1000 2000 = Inr (1975296418228173964702096587 / 10 ^ 26)"
proof -
  have s1: "dec_sub 1 (25 / 10 ^ 4) = Inr (9975 / 10 ^ 4)"
    unfolding dec_sub_def
    by (rule ctx_round_evalI [where n = "9975000000000000000000000000" and e = "-28"]) (simp_all add: Etiny_def Emin_def Emax_def prec_def)
  have s2: "dec_mul 10 (9975 / 10 ^ 4) = Inr (9975 / 10 ^ 3)"
    unfolding dec_mul_def
    by (rule ctx_round_evalI [where n = "9975000000000000000000000000" and e = "-27"]) (simp_all add: Etiny_def Emin_def Emax_def prec_def)
  have s3: "dec_mul (9975 / 10 ^ 3) 2000 = Inr 19950"
    unfolding dec_mul_def
    by (rule ctx_round_evalI [where n = "1995000000000000000000000000" and e = "-23"]) (simp_all add: Etiny_def Emin_def Emax_def prec_def)
  have s4: "dec_add 1000 (9975 / 10 ^ 3) = Inr (1009975 / 10 ^ 3)"
    unfolding dec_add_def
    by (rule ctx_round_evalI [where n = "1009975000000000000000000000" and e = "-24"]) (simp_all add: Etiny_def Emin_def Emax_def prec_def)
  have s5: "dec_div 19950 (1009975 / 10 ^ 3) = Inr (1975296418228173964702096587 / 10 ^ 26)"
    proof -
    have "ctx_round (19950 / (1009975 / 10 ^ 3)) = Inr (1975296418228173964702096587 / 10 ^ 26)"
      by (rule ctx_round_evalI [where n = "1975296418228173964702096587" and e = "-26"]) (simp_all add: Etiny_def Emin_def Emax_def prec_def)
    then show ?thesis by (simp add: dec_div_def)
  qed
  show ?thesis
    by (simp only: swap_formula_def s1 s2 s3 s4 s5 sum.case)
qed

lemma ctx_round_1 [simp]: "ctx_round 1 = Inr 1"
  by (rule ctx_round_evalI [where n = "10 ^ 27" and e = "- 27"])
     (simp_all add: Etiny_def Emin_def Emax_def prec_def)

lemma rounding_example_lo:
  "swap_formula 4000000000000000000000000000 0 3 3 = Inr (2999999999999999999999999998 / 10 ^ 27)"
proof -
  have s1: "dec_sub 1 0 = Inr 1"
    unfolding dec_sub_def
    by (rule ctx_round_evalI [where n = "1000000000000000000000000000" and e = "-27"]) (simp_all add: Etiny_def Emin_def Emax_def prec_def)
  have s2: "dec_mul 4000000000000000000000000000 1 = Inr 4000000000000000000000000000"
    unfolding dec_mul_def
    by (rule ctx_round_evalI [where n = "4000000000000000000000000000" and e = "0"]) (simp_all add: Etiny_def Emin_def Emax_def prec_def)
  have s3: "dec_mul 4000000000000000000000000000 3 = Inr 12000000000000000000000000000"
    unfolding dec_mul_def
    by (rule ctx_round_evalI [where n = "1200000000000000000000000000" and e = "1"]) (simp_all add: Etiny_def Emin_def Emax_def prec_def)
  have s4: "dec_add 3 4000000000000000000000000000 = Inr 4000000000000000000000000003"
    unfolding dec_add_def
    by (rule ctx_round_evalI [where n = "4000000000000000000000000003" and e = "0"]) (simp_all add: Etiny_def Emin_def Emax_def prec_def)
  have s5: "dec_div 12000000000000000000000000000 4000000000000000000000000003 = Inr (2999999999999999999999999998 / 10 ^ 27)"
    proof -
    have "ctx_round (12000000000000000000000000000 / 4000000000000000000000000003) = Inr (2999999999999999999999999998 / 10 ^ 27)"
      by (rule ctx_round_evalI [where n = "2999999999999999999999999998" and e = "-27"]) (simp_all add: Etiny_def Emin_def Emax_def prec_def)
    then show ?thesis by (simp add: dec_div_def)
  qed
  show ?thesis
    by (simp only: swap_formula_def s1 s2 s3 s4 s5 sum.case)
qed

lemma rounding_example_hi:
  "swap_formula 4000000000000000000000000001 0 3 3 = Inr (2999999999999999999999999997 / 10 ^ 27)"
proof -
  have s1: "dec_sub 1 0 = Inr 1"
    unfolding dec_sub_def
    by (rule ctx_round_evalI [where n = "1000000000000000000000000000" and e = "-27"]) (simp_all add: Etiny_def Emin_def Emax_def prec_def)
  have s2: "dec_mul 4000000000000000000000000001 1 = Inr 4000000000000000000000000001"
    unfolding dec_mul_def
    by (rule ctx_round_evalI [where n = "4000000000000000000000000001" and e = "0"]) (simp_all add: Etiny_def Emin_def Emax_def prec_def)
  have s3: "dec_mul 4000000000000000000000000001 3 = Inr 12000000000000000000000000000"
    unfolding dec_mul_def
    by (rule ctx_round_evalI [where n = "1200000000000000000000000000" and e = "1"]) (simp_all add: Etiny_def Emin_def Emax_def prec_def)
  have s4: "dec_add 3 4000000000000000000000000001 = Inr 4000000000000000000000000004"
    unfolding dec_add_def
    by (rule ctx_round_evalI [where n = "4000000000000000000000000004" and e = "0"]) (simp_all add: Etiny_def Emin_def Emax_def prec_def)
  have s5: "dec_div 12000000000000000000000000000 4000000000000000000000000004 = Inr (2999999999999999999999999997 / 10 ^ 27)"
    proof -
    have "ctx_round (12000000000000000000000000000 / 4000000000000000000000000004) = Inr (2999999999999999999999999997 / 10 ^ 27)"
      by (rule ctx_round_evalI [where n = "2999999999999999999999999997" and e = "-27"]) (simp_all add: Etiny_def Emin_def Emax_def prec_def)
    then show ?thesis by (simp add: dec_div_def)
  qed
  show ?thesis
    by (simp only: swap_formula_def s1 s2 s3 s4 s5 sum.case)
qed

lemma tiny_fee_example:
  "swap_formula 1 (1 / 10 ^ 40) 1000000000000000000000000000000 1000000000000000000000000000000 = Inr 1"
proof -
  have s1: "dec_sub 1 (1 / 10 ^ 40) = Inr 1"
    unfolding dec_sub_def
    by (rule ctx_round_evalI [where n = "10000000000000000000000000000" and e = "-28"]) (simp_all add: Etiny_def Emin_def Emax_def prec_def)
  have s2: "dec_mul 1 1 = Inr 1"
    unfolding dec_mul_def
    by (rule ctx_round_evalI [where n = "1000000000000000000000000000" and e = "-27"]) (simp_all add: Etiny_def Emin_def Emax_def prec_def)
  have s3: "dec_mul 1 1000000000000000000000000000000 = Inr 1000000000000000000000000000000"
    unfolding dec_mul_def
    by (rule ctx_round_evalI [where n = "1000000000000000000000000000" and e = "3"]) (simp_all add: Etiny_def Emin_def Emax_def prec_def)
  have s4: "dec_add 1000000000000000000000000000000 1 = Inr 1000000000000000000000000000000"
    unfolding dec_add_def
    by (rule ctx_round_evalI [where n = "1000000000000000000000000000" and e = "3"]) (simp_all add: Etiny_def Emin_def Emax_def prec_def)
  have s5: "dec_div 1000000000000000000000000000000 1000000000000000000000000000000 = Inr 1"
    proof -
    have "ctx_round (1000000000000000000000000000000 / 1000000000000000000000000000000) = Inr 1"
      by (rule ctx_round_evalI [where n = "1000000000000000000000000000" and e = "-27"]) (simp_all add: Etiny_def Emin_def Emax_def prec_def)
    then show ?thesis by (simp add: dec_div_def)
  qed
  show ?thesis
    by (simp only: swap_formula_def s1 s2 s3 s4 s5 sum.case)
qed

lemma equal_reserves_example_20:
  "swap_formula 20 0 1000 1000 = Inr (1960784313725490196078431373 / 10 ^ 26)"
proof -
  have s1: "dec_sub 1 0 = Inr 1"
    unfolding dec_sub_def
    by (rule ctx_round_evalI [where n = "1000000000000000000000000000" and e = "-27"]) (simp_all add: Etiny_def Emin_def Emax_def prec_def)
  have s2: "dec_mul 20 1 = Inr 20"
    unfolding dec_mul_def
    by (rule ctx_round_evalI [where n = "2000000000000000000000000000" and e = "-26"]) (simp_all add: Etiny_def Emin_def Emax_def prec_def)
  have s3: "dec_mul 20 1000 = Inr 20000"
    unfolding dec_mul_def
    by (rule ctx_round_evalI [where n = "2000000000000000000000000000" and e = "-23"]) (simp_all add: Etiny_def Emin_def Emax_def prec_def)
  have s4: "dec_add 1000 20 = Inr 1020"
    unfolding dec_add_def
    by (rule ctx_round_evalI [where n = "1020000000000000000000000000" and e = "-24"]) (simp_all add: Etiny_def Emin_def Emax_def prec_def)
  have s5: "dec_div 20000 1020 = Inr (1960784313725490196078431373 / 10 ^ 26)"
    proof -
    have "ctx_round (20000 / 1020) = Inr (1960784313725490196078431373 / 10 ^ 26)"
      by (rule ctx_round_evalI [where n = "1960784313725490196078431373" and e = "-26"]) (simp_all add: Etiny_def Emin_def Emax_def prec_def)
    then show ?thesis by (simp add: dec_div_def)
  qed
  show ?thesis
    by (simp only: swap_formula_def s1 s2 s3 s4 s5 sum.case)
qed

lemma equal_reserves_fee_example:
  "swap_formula 10 (25 / 10 ^ 4) 1000 1000 = Inr (9876482091140869823510482933 / 10 ^ 27)"
proof -
  have s1: "dec_sub 1 (25 / 10 ^ 4) = Inr (9975 / 10 ^ 4)"
    unfolding dec_sub_def
    by (rule ctx_round_evalI [where n = "9975000000000000000000000000" and e = "-28"]) (simp_all add: Etiny_def Emin_def Emax_def prec_def)
  have s2: "dec_mul 10 (9975 / 10 ^ 4) = Inr (9975 / 10 ^ 3)"
    unfolding dec_mul_def
    by (rule ctx_round_evalI [where n = "9975000000000000000000000000" and e = "-27"]) (simp_all add: Etiny_def Emin_def Emax_def prec_def)
  have s3: "dec_mul (9975 / 10 ^ 3) 1000 = Inr 9975"
    unfolding dec_mul_def
    by (rule ctx_round_evalI [where n = "9975000000000000000000000000" and e = "-24"]) (simp_all add: Etiny_def Emin_def Emax_def prec_def)
  have s4: "dec_add 1000 (9975 / 10 ^ 3) = Inr (1009975 / 10 ^ 3)"
    unfolding dec_add_def
    by (rule ctx_round_evalI [where n = "1009975000000000000000000000" and e = "-24"]) (simp_all add: Etiny_def Emin_def Emax_def prec_def)
  have s5: "dec_div 9975 (1009975 / 10 ^ 3) = Inr (9876482091140869823510482933 / 10 ^ 27)"
    proof -
    have "ctx_round (9975 / (1009975 / 10 ^ 3)) = Inr (9876482091140869823510482933 / 10 ^ 27)"
      by (rule ctx_round_evalI [where n = "9876482091140869823510482933" and e = "-27"]) (simp_all add: Etiny_def Emin_def Emax_def prec_def)
    then show ?thesis by (simp add: dec_div_def)
  qed
  show ?thesis
    by (simp only: swap_formula_def s1 s2 s3 s4 s5 sum.case)
qed

lemma swap_formula_exact:
  assumes "representable (1 - f)" and "representable (x * (1 - f))"
    and "representable (x * (1 - f) * rout)" and "representable (rin + x * (1 - f))"
    and "rin + x * (1 - f) \<noteq> 0"
  shows "swap_formula x f rin rout = ctx_round (x * (1 - f) * rout / (rin + x * (1 - f)))"
proof -
  have s1: "dec_sub 1 f = Inr (1 - f)" using assms(1) by (simp add: dec_sub_def representable_def)
  have s2: "dec_mul x (1 - f) = Inr (x * (1 - f))"
    using assms(2) by (simp add: dec_mul_def representable_def)
  have s3: "dec_mul (x * (1 - f)) rout = Inr (x * (1 - f) * rout)"
    using assms(3) by (simp add: dec_mul_def representable_def)
  have s4: "dec_add rin (x * (1 - f)) = Inr (rin + x * (1 - f))"
    using assms(4) by (simp add: dec_add_def representable_def)
  have "swap_formula x f rin rout = dec_div (x * (1 - f) * rout) (rin + x * (1 - f))"
    by (simp only: swap_formula_def s1 s2 s3 s4 sum.case)
  with assms(5) show ?thesis by (simp add: dec_div_def)
qed

lemma constant_product_le:
  assumes "0 \<le> (R::rat)" and "0 \<le> a" and "R + a \<noteq> 0"
  shows "0 \<le> a * R / (R + a)" and "a * R / (R + a) \<le> a"
proof -
  from assms have pos: "0 < R + a" by linarith
  show "0 \<le> a * R / (R + a)" using assms(1,2) pos by simp
  have "a * R \<le> a * (R + a)" using assms(1,2) by (simp add: mult_left_mono)
  then show "a * R / (R + a) \<le> a" using pos by (simp add: pos_divide_le_eq)
qed

lemma constant_product_mono:
  assumes "0 \<le> (R::rat)" and "0 \<le> a" and "a \<le> b" and "R + a \<noteq> 0"
  shows "a * R / (R + a) \<le> b * R / (R + b)"
proof -
  from assms have pa: "0 < R + a" and pb: "0 < R + b" by linarith+
  have "a * (R * R) \<le> b * (R * R)" using assms(1,3) by (intro mult_right_mono) simp_all
  then have key: "a * R * (R + b) \<le> b * R * (R + a)" by (simp add: algebra_simps)
  have "a * R / (R + a) \<le> b * R / (R + b) \<longleftrightarrow> a * R * (R + b) \<le> b * R * (R + a)"
    using pa pb by (simp add: pos_divide_le_eq pos_le_divide_eq)
  with key show ?thesis by simp
qed

lemma swap_equal_reserves_mono:
  assumes R: "0 \<le> R" and x: "0 \<le> x" and xy: "x \<le> y" and nz: "R \<noteq> 0 \<or> x \<noteq> 0"
    and rx: "representable x" "representable (x * R)" "representable (R + x)"
    and ry: "representable y" "representable (y * R)" "representable (R + y)"
  shows "\<exists>out_x out_y. swap_formula x 0 R R = Inr out_x \<and> swap_formula y 0 R R = Inr out_y \<and>
           out_x \<le> out_y"
proof -
  have one: "representable (1 - 0)" by (simp add: representable_def)
  from R x xy nz have nx: "R + x \<noteq> 0" and ny: "R + y \<noteq> 0" and y: "0 \<le> y" by auto
  have sx: "swap_formula x 0 R R = ctx_round (x * R / (R + x))"
    using swap_formula_exact [of 0 x R R] one rx nx by simp
  have sy: "swap_formula y 0 R R = ctx_round (y * R / (R + y))"
    using swap_formula_exact [of 0 y R R] one ry ny by simp
  note bx = constant_product_le [OF R x nx] and by' = constant_product_le [OF R y ny]
  from ctx_round_le_representable [OF bx] rx(1) obtain out_x where
    ox: "ctx_round (x * R / (R + x)) = Inr out_x" by (auto simp: representable_def)
  from ctx_round_le_representable [OF by'] ry(1) obtain out_y where
    oy: "ctx_round (y * R / (R + y)) = Inr out_y" by (auto simp: representable_def)
  from ctx_round_mono [OF bx(1) constant_product_mono [OF R x xy nx] ox oy]
  have "out_x \<le> out_y" .
  with sx sy ox oy show ?thesis by simp
qed

lemma swap_equal_reserves_below:
  assumes R: "0 \<le> R" and f: "0 < f" "f < 1" and z: "0 < z"
    and r: "representable (1 - f)" "representable (z * (1 - f))"
      "representable (z * (1 - f) * R)" "representable (R + z * (1 - f))"
  shows "\<exists>out. swap_formula z f R R = Inr out \<and> out < z"
proof -
  let ?a = "z * (1 - f)"
  from f z have a: "0 < ?a" by simp
  have "?a = z - z * f" by (simp add: algebra_simps)
  also have "\<dots> < z" using f z by simp
  finally have az: "?a < z" .
  from a R have n: "R + ?a \<noteq> 0" by linarith
  have s: "swap_formula z f R R = ctx_round (?a * R / (R + ?a))"
    by (rule swap_formula_exact [OF r n])
  from a have a0: "0 \<le> ?a" by simp
  note b = constant_product_le [OF R a0 n]
  from ctx_round_le_representable [OF b] r(2) obtain out where
    o: "ctx_round (?a * R / (R + ?a)) = Inr out" "out \<le> ?a" by (auto simp: representable_def)
  from o(2) az have "out < z" by linarith
  with s o(1) show ?thesis by simp
qed

(*LEMMAS*)

section \<open>Properties of the swap simulator\<close>

text \<open>
  C9: for every pool, every amount and every input token that is neither \<open>token_a\<close> nor
  \<open>token_b\<close> of the pool, \<open>simulate_swap\<close> returns exactly \<open>0\<close> (and raises nothing).
\<close>

theorem simulate_swap_unmatched:
  assumes "input_token \<noteq> token_a p" and "input_token \<noteq> token_b p"
  shows "simulate_swap amount_in p input_token = Inr 0"
  using assms by (simp add: simulate_swap_def)

theorem simulate_swap_unmatched_witness:
  "''USDC'' \<noteq> token_a \<lparr>token_a = ''SOL'', token_b = ''RAY'', reserve_a = 1000, reserve_b = 2000, fee = Some (1 / 400)\<rparr>
   \<and> ''USDC'' \<noteq> token_b \<lparr>token_a = ''SOL'', token_b = ''RAY'', reserve_a = 1000, reserve_b = 2000, fee = Some (1 / 400)\<rparr>
   \<and> simulate_swap 10 \<lparr>token_a = ''SOL'', token_b = ''RAY'', reserve_a = 1000, reserve_b = 2000, fee = Some (1 / 400)\<rparr> ''USDC'' = Inr 0"
  using simulate_swap_unmatched [of "''USDC''"
      "\<lparr>token_a = ''SOL'', token_b = ''RAY'', reserve_a = 1000, reserve_b = 2000, fee = Some (1 / 400)\<rparr>" 10]
  by simp

section \<open>Properties of the cycle search\<close>

text \<open>
  C4: for the three pools base/A (reserves 1000 and 1000, no fee), A/B (reserves 1000 and
  1000, no fee) and B/base (reserves 1000 on the B side and 2000 on the base side, no fee),
  with an input of 10 and a minimal profit of 0, the search returns exactly one opportunity;
  its path is base, A, B, base and its \<open>amount_out\<close> is the value of three chained calls of
  \<open>simulate_swap\<close>, the Decimal 19.41747572815533980582524271.
\<close>

theorem three_pool_example:
  assumes "base \<noteq> A" and "base \<noteq> B" and "A \<noteq> B"
  shows "\<exists>amt1 amt2 amt3 profit.
           simulate_swap 10
             \<lparr>token_a = base, token_b = A, reserve_a = 1000, reserve_b = 1000, fee = Some 0\<rparr>
             base = Inr amt1 \<and>
           simulate_swap amt1
             \<lparr>token_a = A, token_b = B, reserve_a = 1000, reserve_b = 1000, fee = Some 0\<rparr>
             A = Inr amt2 \<and>
           simulate_swap amt2
             \<lparr>token_a = B, token_b = base, reserve_a = 1000, reserve_b = 2000, fee = Some 0\<rparr>
             B = Inr amt3 \<and>
           amt3 = 1941747572815533980582524271 / 10 ^ 26 \<and>
           find_arbitrage_opportunities
             [\<lparr>token_a = base, token_b = A, reserve_a = 1000, reserve_b = 1000, fee = Some 0\<rparr>,
              \<lparr>token_a = A, token_b = B, reserve_a = 1000, reserve_b = 1000, fee = Some 0\<rparr>,
              \<lparr>token_a = B, token_b = base, reserve_a = 1000, reserve_b = 2000, fee = Some 0\<rparr>]
             base 10 0
           = Inr [[(''path'', PyList [base, A, B, base]),
                   (''amount_out'', PyDecimal amt3),
                   (''profit'', PyDecimal profit)]]"
proof -
  have 1: "simulate_swap 10
             \<lparr>token_a = base, token_b = A, reserve_a = 1000, reserve_b = 1000, fee = Some 0\<rparr>
             base = Inr (9900990099009900990099009901 / 10 ^ 27)"
    by (simp only: simulate_swap_side_a example_hop_a1)
  have 2: "simulate_swap (9900990099009900990099009901 / 10 ^ 27)
             \<lparr>token_a = A, token_b = B, reserve_a = 1000, reserve_b = 1000, fee = Some 0\<rparr>
             A = Inr (9803921568627450980392156862 / 10 ^ 27)"
    by (simp only: simulate_swap_side_a example_hop_a2)
  have 3: "simulate_swap (9803921568627450980392156862 / 10 ^ 27)
             \<lparr>token_a = B, token_b = base, reserve_a = 1000, reserve_b = 2000, fee = Some 0\<rparr>
             B = Inr (1941747572815533980582524271 / 10 ^ 26)"
    by (simp only: simulate_swap_side_a example_hop_a3)
  note 4 = example_search [OF assms, unfolded opportunity_dict_def]
  from 1 2 3 4 show ?thesis by blast
qed

theorem three_pool_example_witness:
  "''SOL'' \<noteq> ''RAY'' \<and> ''SOL'' \<noteq> ''USDC'' \<and> ''RAY'' \<noteq> ''USDC'' \<and>
   (\<exists>amt1 amt2 amt3 profit.
           simulate_swap 10
             \<lparr>token_a = ''SOL'', token_b = ''RAY'', reserve_a = 1000, reserve_b = 1000, fee = Some 0\<rparr>
             ''SOL'' = Inr amt1 \<and>
           simulate_swap amt1
             \<lparr>token_a = ''RAY'', token_b = ''USDC'', reserve_a = 1000, reserve_b = 1000, fee = Some 0\<rparr>
             ''RAY'' = Inr amt2 \<and>
           simulate_swap amt2
             \<lparr>token_a = ''USDC'', token_b = ''SOL'', reserve_a = 1000, reserve_b = 2000, fee = Some 0\<rparr>
             ''USDC'' = Inr amt3 \<and>
           amt3 = 1941747572815533980582524271 / 10 ^ 26 \<and>
           find_arbitrage_opportunities
             [\<lparr>token_a = ''SOL'', token_b = ''RAY'', reserve_a = 1000, reserve_b = 1000, fee = Some 0\<rparr>,
              \<lparr>token_a = ''RAY'', token_b = ''USDC'', reserve_a = 1000, reserve_b = 1000, fee = Some 0\<rparr>,
              \<lparr>token_a = ''USDC'', token_b = ''SOL'', reserve_a = 1000, reserve_b = 2000, fee = Some 0\<rparr>]
             ''SOL'' 10 0
           = Inr [[(''path'', PyList [''SOL'', ''RAY'', ''USDC'', ''SOL'']),
                   (''amount_out'', PyDecimal amt3),
                   (''profit'', PyDecimal profit)]])"
proof -
  have d: "''SOL'' \<noteq> ''RAY''" "''SOL'' \<noteq> ''USDC''" "''RAY'' \<noteq> ''USDC''" by simp_all
  from three_pool_example [OF d] d show ?thesis by blast
qed

text \<open>
  C5: every opportunity returned by the search carries a profit that is the Decimal
  subtraction \<open>amount_out - amount_in\<close> (line 128, rounded to the context like every
  Decimal operation) and that is at least \<open>min_profit\<close>.
\<close>

theorem opportunity_profit:
  assumes "find_arbitrage_opportunities pools base_token amount_in min_profit = Inr opps"
    and "opp \<in> set opps"
  shows "\<exists>amount_out profit.
           map_of opp ''amount_out'' = Some (PyDecimal amount_out) \<and>
           map_of opp ''profit'' = Some (PyDecimal profit) \<and>
           dec_sub amount_out amount_in = Inr profit \<and> min_profit \<le> profit"
proof -
  from opportunity_origin [OF assms] obtain tok1 tok2 amt3 profit where
    "dec_sub amt3 amount_in = Inr profit" "min_profit \<le> profit"
    "opp = opportunity_dict base_token tok1 tok2 amt3 profit" by blast
  then show ?thesis by (simp add: opportunity_dict_def)
qed

theorem opportunity_profit_witness:
  "find_arbitrage_opportunities
     [\<lparr>token_a = ''SOL'', token_b = ''RAY'', reserve_a = 1000, reserve_b = 1000, fee = Some 0\<rparr>,
      \<lparr>token_a = ''RAY'', token_b = ''USDC'', reserve_a = 1000, reserve_b = 1000, fee = Some 0\<rparr>,
      \<lparr>token_a = ''USDC'', token_b = ''SOL'', reserve_a = 1000, reserve_b = 2000, fee = Some 0\<rparr>]
     ''SOL'' 10 0
   = Inr [opportunity_dict ''SOL'' ''RAY'' ''USDC'' (1941747572815533980582524271 / 10 ^ 26)
            (941747572815533980582524271 / 10 ^ 26)] \<and>
   (\<exists>amount_out profit.
      map_of (opportunity_dict ''SOL'' ''RAY'' ''USDC'' (1941747572815533980582524271 / 10 ^ 26)
                (941747572815533980582524271 / 10 ^ 26)) ''amount_out'' = Some (PyDecimal amount_out) \<and>
      map_of (opportunity_dict ''SOL'' ''RAY'' ''USDC'' (1941747572815533980582524271 / 10 ^ 26)
                (941747572815533980582524271 / 10 ^ 26)) ''profit'' = Some (PyDecimal profit) \<and>
      dec_sub amount_out 10 = Inr profit \<and> 0 \<le> profit)"
proof -
  have ex: "find_arbitrage_opportunities
     [\<lparr>token_a = ''SOL'', token_b = ''RAY'', reserve_a = 1000, reserve_b = 1000, fee = Some 0\<rparr>,
      \<lparr>token_a = ''RAY'', token_b = ''USDC'', reserve_a = 1000, reserve_b = 1000, fee = Some 0\<rparr>,
      \<lparr>token_a = ''USDC'', token_b = ''SOL'', reserve_a = 1000, reserve_b = 2000, fee = Some 0\<rparr>]
     ''SOL'' 10 0
   = Inr [opportunity_dict ''SOL'' ''RAY'' ''USDC'' (1941747572815533980582524271 / 10 ^ 26)
            (941747572815533980582524271 / 10 ^ 26)]"
    by (rule example_search) simp_all
  from opportunity_profit [OF ex] ex show ?thesis by simp
qed

text \<open>
  C10: when every pool of the list has two different tokens, every opportunity returned by
  the search has a path of exactly four tokens, the base token first and last, and two
  intermediate tokens that differ from the base token and from each other.
\<close>

theorem opportunity_path:
  assumes "\<forall>p \<in> set pools. token_a p \<noteq> token_b p"
    and "find_arbitrage_opportunities pools base_token amount_in min_profit = Inr opps"
    and "opp \<in> set opps"
  shows "\<exists>tok1 tok2.
           map_of opp ''path'' = Some (PyList [base_token, tok1, tok2, base_token]) \<and>
           length [base_token, tok1, tok2, base_token] = 4 \<and>
           tok1 \<noteq> base_token \<and> tok2 \<noteq> base_token \<and> tok1 \<noteq> tok2"
proof -
  from opportunity_origin [OF assms(2,3)] obtain p1 p2 amt3 profit where
    p1: "p1 \<in> set pools" "token_a p1 = base_token \<or> token_b p1 = base_token"
    and p2: "p2 \<in> set pools"
      "token_a p2 = other_token p1 base_token \<or> token_b p2 = other_token p1 base_token"
    and ne: "other_token p2 (other_token p1 base_token) \<noteq> base_token"
    and opp: "opp = opportunity_dict base_token (other_token p1 base_token)
                (other_token p2 (other_token p1 base_token)) amt3 profit"
    by blast
  let ?tok1 = "other_token p1 base_token"
  let ?tok2 = "other_token p2 ?tok1"
  from assms(1) p1 have 1: "?tok1 \<noteq> base_token" by (auto simp: other_token_def)
  from assms(1) p2 have 2: "?tok2 \<noteq> ?tok1" by (auto simp: other_token_def)
  from 1 2 ne opp show ?thesis by (auto simp: opportunity_dict_def)
qed

theorem opportunity_path_witness:
  "list_all (\<lambda>p. token_a p \<noteq> token_b p)
     [\<lparr>token_a = ''SOL'', token_b = ''RAY'', reserve_a = 1000, reserve_b = 1000, fee = Some 0\<rparr>,
      \<lparr>token_a = ''RAY'', token_b = ''USDC'', reserve_a = 1000, reserve_b = 1000, fee = Some 0\<rparr>,
      \<lparr>token_a = ''USDC'', token_b = ''SOL'', reserve_a = 1000, reserve_b = 2000, fee = Some 0\<rparr>] \<and>
   find_arbitrage_opportunities
     [\<lparr>token_a = ''SOL'', token_b = ''RAY'', reserve_a = 1000, reserve_b = 1000, fee = Some 0\<rparr>,
      \<lparr>token_a = ''RAY'', token_b = ''USDC'', reserve_a = 1000, reserve_b = 1000, fee = Some 0\<rparr>,
      \<lparr>token_a = ''USDC'', token_b = ''SOL'', reserve_a = 1000, reserve_b = 2000, fee = Some 0\<rparr>]
     ''SOL'' 10 0
   = Inr [opportunity_dict ''SOL'' ''RAY'' ''USDC'' (1941747572815533980582524271 / 10 ^ 26)
            (941747572815533980582524271 / 10 ^ 26)] \<and>
   (\<exists>tok1 tok2.
      map_of (opportunity_dict ''SOL'' ''RAY'' ''USDC'' (1941747572815533980582524271 / 10 ^ 26)
                (941747572815533980582524271 / 10 ^ 26)) ''path''
        = Some (PyList [''SOL'', tok1, tok2, ''SOL'']) \<and>
      length [''SOL'', tok1, tok2, ''SOL''] = 4 \<and>
      tok1 \<noteq> ''SOL'' \<and> tok2 \<noteq> ''SOL'' \<and> tok1 \<noteq> tok2)"
proof -
  let ?pools = "[\<lparr>token_a = ''SOL'', token_b = ''RAY'', reserve_a = 1000, reserve_b = 1000, fee = Some 0\<rparr>,
      \<lparr>token_a = ''RAY'', token_b = ''USDC'', reserve_a = 1000, reserve_b = 1000, fee = Some 0\<rparr>,
      \<lparr>token_a = ''USDC'', token_b = ''SOL'', reserve_a = 1000, reserve_b = 2000, fee = Some 0\<rparr>]"
  have wf: "\<forall>p \<in> set ?pools. token_a p \<noteq> token_b p" by simp
  have ex: "find_arbitrage_opportunities ?pools ''SOL'' 10 0
   = Inr [opportunity_dict ''SOL'' ''RAY'' ''USDC'' (1941747572815533980582524271 / 10 ^ 26)
            (941747572815533980582524271 / 10 ^ 26)]"
    by (rule example_search) simp_all
  from opportunity_path [OF wf ex] wf ex show ?thesis by simp
qed

text \<open>
  C2 (as the code has it): every opportunity returned by the search is a dictionary with
  exactly the keys \<open>path\<close>, \<open>amount_out\<close> and \<open>profit\<close>, in this order; it has no
  \<open>amount_in\<close> key, the input amount is not stored in it.
\<close>

theorem opportunity_keys:
  assumes "find_arbitrage_opportunities pools base_token amount_in min_profit = Inr opps"
    and "opp \<in> set opps"
  shows "map fst opp = [''path'', ''amount_out'', ''profit''] \<and> map_of opp ''amount_in'' = None"
proof -
  from opportunity_origin [OF assms] obtain tok1 tok2 amt3 profit where
    "opp = opportunity_dict base_token tok1 tok2 amt3 profit" by blast
  then show ?thesis by (simp add: opportunity_dict_def)
qed

theorem opportunity_keys_witness:
  "find_arbitrage_opportunities
     [\<lparr>token_a = ''SOL'', token_b = ''RAY'', reserve_a = 1000, reserve_b = 1000, fee = Some 0\<rparr>,
      \<lparr>token_a = ''RAY'', token_b = ''USDC'', reserve_a = 1000, reserve_b = 1000, fee = Some 0\<rparr>,
      \<lparr>token_a = ''USDC'', token_b = ''SOL'', reserve_a = 1000, reserve_b = 2000, fee = Some 0\<rparr>]
     ''SOL'' 10 0
   = Inr [opportunity_dict ''SOL'' ''RAY'' ''USDC'' (1941747572815533980582524271 / 10 ^ 26)
            (941747572815533980582524271 / 10 ^ 26)] \<and>
   map fst (opportunity_dict ''SOL'' ''RAY'' ''USDC'' (1941747572815533980582524271 / 10 ^ 26)
              (941747572815533980582524271 / 10 ^ 26)) = [''path'', ''amount_out'', ''profit''] \<and>
   map_of (opportunity_dict ''SOL'' ''RAY'' ''USDC'' (1941747572815533980582524271 / 10 ^ 26)
             (941747572815533980582524271 / 10 ^ 26)) ''amount_in'' = None"
proof -
  have ex: "find_arbitrage_opportunities
     [\<lparr>token_a = ''SOL'', token_b = ''RAY'', reserve_a = 1000, reserve_b = 1000, fee = Some 0\<rparr>,
      \<lparr>token_a = ''RAY'', token_b = ''USDC'', reserve_a = 1000, reserve_b = 1000, fee = Some 0\<rparr>,
      \<lparr>token_a = ''USDC'', token_b = ''SOL'', reserve_a = 1000, reserve_b = 2000, fee = Some 0\<rparr>]
     ''SOL'' 10 0
   = Inr [opportunity_dict ''SOL'' ''RAY'' ''USDC'' (1941747572815533980582524271 / 10 ^ 26)
            (941747572815533980582524271 / 10 ^ 26)]"
    by (rule example_search) simp_all
  from opportunity_keys [OF ex] ex show ?thesis by simp
qed

theorem opportunity_amount_in_counterexample:
  "find_arbitrage_opportunities
     [\<lparr>token_a = ''SOL'', token_b = ''RAY'', reserve_a = 1000, reserve_b = 1000, fee = Some 0\<rparr>,
      \<lparr>token_a = ''RAY'', token_b = ''USDC'', reserve_a = 1000, reserve_b = 1000, fee = Some 0\<rparr>,
      \<lparr>token_a = ''USDC'', token_b = ''SOL'', reserve_a = 1000, reserve_b = 2000, fee = Some 0\<rparr>]
     ''SOL'' 10 0
   = Inr [[(''path'', PyList [''SOL'', ''RAY'', ''USDC'', ''SOL'']),
           (''amount_out'', PyDecimal (1941747572815533980582524271 / 10 ^ 26)),
           (''profit'', PyDecimal (941747572815533980582524271 / 10 ^ 26))]] \<and>
   map_of [(''path'', PyList [''SOL'', ''RAY'', ''USDC'', ''SOL'']),
           (''amount_out'', PyDecimal (1941747572815533980582524271 / 10 ^ 26)),
           (''profit'', PyDecimal (941747572815533980582524271 / 10 ^ 26))] ''amount_in''
     \<noteq> Some (PyDecimal 10)"
proof -
  have "find_arbitrage_opportunities
     [\<lparr>token_a = ''SOL'', token_b = ''RAY'', reserve_a = 1000, reserve_b = 1000, fee = Some 0\<rparr>,
      \<lparr>token_a = ''RAY'', token_b = ''USDC'', reserve_a = 1000, reserve_b = 1000, fee = Some 0\<rparr>,
      \<lparr>token_a = ''USDC'', token_b = ''SOL'', reserve_a = 1000, reserve_b = 2000, fee = Some 0\<rparr>]
     ''SOL'' 10 0
   = Inr [opportunity_dict ''SOL'' ''RAY'' ''USDC'' (1941747572815533980582524271 / 10 ^ 26)
            (941747572815533980582524271 / 10 ^ 26)]"
    by (rule example_search) simp_all
  then show ?thesis by (simp add: opportunity_dict_def)
qed

text \<open>
  C8: a pool \<open>q\<close> of the list whose two tokens both differ from the base token and occur
  in no pool of the list that has the base token on one side contributes to nothing:
  the search on the list and the search on the list without \<open>q\<close> (its first occurrence
  or all of them) return the same result, the same list in the same order or the same
  exception.
\<close>

theorem unrelated_pool_irrelevant:
  assumes "q \<in> set pools"
    and "token_a q \<noteq> base_token" and "token_b q \<noteq> base_token"
    and "\<forall>p \<in> set pools. token_a p = base_token \<or> token_b p = base_token \<longrightarrow>
           token_a q \<notin> {token_a p, token_b p} \<and> token_b q \<notin> {token_a p, token_b p}"
  shows "find_arbitrage_opportunities pools base_token amount_in min_profit
           = find_arbitrage_opportunities (remove1 q pools) base_token amount_in min_profit \<and>
         find_arbitrage_opportunities pools base_token amount_in min_profit
           = find_arbitrage_opportunities (removeAll q pools) base_token amount_in min_profit"
proof -
  have 1: "removeAll q (remove1 q pools) = removeAll q pools"
    by (induction pools) auto
  note a = find_without_unrelated [OF assms(2,3,4), of pools amount_in min_profit, OF refl]
  note b = find_without_unrelated [OF assms(2,3,4), of "remove1 q pools" amount_in min_profit, OF 1]
  from a b show ?thesis by simp
qed

theorem unrelated_pool_irrelevant_witness:
  "\<lparr>token_a = ''BONK'', token_b = ''WIF'', reserve_a = 5, reserve_b = 7, fee = Some 0\<rparr>
     \<in> set [\<lparr>token_a = ''SOL'', token_b = ''RAY'', reserve_a = 1000, reserve_b = 1000, fee = Some 0\<rparr>,
            \<lparr>token_a = ''BONK'', token_b = ''WIF'', reserve_a = 5, reserve_b = 7, fee = Some 0\<rparr>,
            \<lparr>token_a = ''RAY'', token_b = ''USDC'', reserve_a = 1000, reserve_b = 1000, fee = Some 0\<rparr>,
            \<lparr>token_a = ''USDC'', token_b = ''SOL'', reserve_a = 1000, reserve_b = 2000, fee = Some 0\<rparr>] \<and>
   ''BONK'' \<noteq> ''SOL'' \<and> ''WIF'' \<noteq> ''SOL'' \<and>
   list_all (\<lambda>p. token_a p = ''SOL'' \<or> token_b p = ''SOL'' \<longrightarrow>
               ''BONK'' \<notin> {token_a p, token_b p} \<and> ''WIF'' \<notin> {token_a p, token_b p})
     [\<lparr>token_a = ''SOL'', token_b = ''RAY'', reserve_a = 1000, reserve_b = 1000, fee = Some 0\<rparr>,
      \<lparr>token_a = ''BONK'', token_b = ''WIF'', reserve_a = 5, reserve_b = 7, fee = Some 0\<rparr>,
      \<lparr>token_a = ''RAY'', token_b = ''USDC'', reserve_a = 1000, reserve_b = 1000, fee = Some 0\<rparr>,
      \<lparr>token_a = ''USDC'', token_b = ''SOL'', reserve_a = 1000, reserve_b = 2000, fee = Some 0\<rparr>] \<and>
   find_arbitrage_opportunities
     [\<lparr>token_a = ''SOL'', token_b = ''RAY'', reserve_a = 1000, reserve_b = 1000, fee = Some 0\<rparr>,
      \<lparr>token_a = ''BONK'', token_b = ''WIF'', reserve_a = 5, reserve_b = 7, fee = Some 0\<rparr>,
      \<lparr>token_a = ''RAY'', token_b = ''USDC'', reserve_a = 1000, reserve_b = 1000, fee = Some 0\<rparr>,
      \<lparr>token_a = ''USDC'', token_b = ''SOL'', reserve_a = 1000, reserve_b = 2000, fee = Some 0\<rparr>]
     ''SOL'' 10 0
   = find_arbitrage_opportunities
     [\<lparr>token_a = ''SOL'', token_b = ''RAY'', reserve_a = 1000, reserve_b = 1000, fee = Some 0\<rparr>,
      \<lparr>token_a = ''RAY'', token_b = ''USDC'', reserve_a = 1000, reserve_b = 1000, fee = Some 0\<rparr>,
      \<lparr>token_a = ''USDC'', token_b = ''SOL'', reserve_a = 1000, reserve_b = 2000, fee = Some 0\<rparr>]
     ''SOL'' 10 0"
  using unrelated_pool_irrelevant
    [of "\<lparr>token_a = ''BONK'', token_b = ''WIF'', reserve_a = 5, reserve_b = 7, fee = Some 0\<rparr>"
        "[\<lparr>token_a = ''SOL'', token_b = ''RAY'', reserve_a = 1000, reserve_b = 1000, fee = Some 0\<rparr>,
          \<lparr>token_a = ''BONK'', token_b = ''WIF'', reserve_a = 5, reserve_b = 7, fee = Some 0\<rparr>,
          \<lparr>token_a = ''RAY'', token_b = ''USDC'', reserve_a = 1000, reserve_b = 1000, fee = Some 0\<rparr>,
          \<lparr>token_a = ''USDC'', token_b = ''SOL'', reserve_a = 1000, reserve_b = 2000, fee = Some 0\<rparr>]"
        "''SOL''" 10 0]
  by simp

text \<open>
  C7: for every permutation of the pool list, when the search on the original list returns
  a list of opportunities, the search on the permuted list returns a list with the same
  multiset of opportunities, hence the same multiset of pairs of \<open>path\<close> and
  \<open>amount_out\<close>; only the order may differ.  (By symmetry, if one of the two raises, so
  does the other.)
\<close>

theorem permuted_pools_same_opportunities:
  assumes "mset pools' = mset pools"
    and "find_arbitrage_opportunities pools base_token amount_in min_profit = Inr opps"
  shows "\<exists>opps'. find_arbitrage_opportunities pools' base_token amount_in min_profit = Inr opps' \<and>
           mset opps' = mset opps \<and>
           mset (map (\<lambda>opp. (map_of opp ''path'', map_of opp ''amount_out'')) opps')
             = mset (map (\<lambda>opp. (map_of opp ''path'', map_of opp ''amount_out'')) opps)"
proof -
  from find_permuted [OF assms(1), of base_token amount_in min_profit] assms(2)
  obtain opps' where r: "find_arbitrage_opportunities pools' base_token amount_in min_profit = Inr opps'"
    and m: "mset opps = mset opps'"
    by (auto simp: same_outcome_Inr)
  from m have "image_mset (\<lambda>opp. (map_of opp ''path'', map_of opp ''amount_out'')) (mset opps')
             = image_mset (\<lambda>opp. (map_of opp ''path'', map_of opp ''amount_out'')) (mset opps)"
    by simp
  with r m show ?thesis by simp
qed

theorem permuted_pools_same_opportunities_witness:
  "mset [\<lparr>token_a = ''USDC'', token_b = ''SOL'', reserve_a = 1000, reserve_b = 2000, fee = Some 0\<rparr>,
         \<lparr>token_a = ''SOL'', token_b = ''RAY'', reserve_a = 1000, reserve_b = 1000, fee = Some 0\<rparr>,
         \<lparr>token_a = ''RAY'', token_b = ''USDC'', reserve_a = 1000, reserve_b = 1000, fee = Some 0\<rparr>]
   = mset [\<lparr>token_a = ''SOL'', token_b = ''RAY'', reserve_a = 1000, reserve_b = 1000, fee = Some 0\<rparr>,
           \<lparr>token_a = ''RAY'', token_b = ''USDC'', reserve_a = 1000, reserve_b = 1000, fee = Some 0\<rparr>,
           \<lparr>token_a = ''USDC'', token_b = ''SOL'', reserve_a = 1000, reserve_b = 2000, fee = Some 0\<rparr>] \<and>
   find_arbitrage_opportunities
     [\<lparr>token_a = ''SOL'', token_b = ''RAY'', reserve_a = 1000, reserve_b = 1000, fee = Some 0\<rparr>,
      \<lparr>token_a = ''RAY'', token_b = ''USDC'', reserve_a = 1000, reserve_b = 1000, fee = Some 0\<rparr>,
      \<lparr>token_a = ''USDC'', token_b = ''SOL'', reserve_a = 1000, reserve_b = 2000, fee = Some 0\<rparr>]
     ''SOL'' 10 (- 6)
   = Inr [opportunity_dict ''SOL'' ''RAY'' ''USDC'' (1941747572815533980582524271 / 10 ^ 26)
            (941747572815533980582524271 / 10 ^ 26),
          opportunity_dict ''SOL'' ''USDC'' ''RAY'' (4926108374384236453201970443 / 10 ^ 27)
            (- (5073891625615763546798029557 / 10 ^ 27))] \<and>
   (\<exists>opps'.
      find_arbitrage_opportunities
        [\<lparr>token_a = ''USDC'', token_b = ''SOL'', reserve_a = 1000, reserve_b = 2000, fee = Some 0\<rparr>,
         \<lparr>token_a = ''SOL'', token_b = ''RAY'', reserve_a = 1000, reserve_b = 1000, fee = Some 0\<rparr>,
         \<lparr>token_a = ''RAY'', token_b = ''USDC'', reserve_a = 1000, reserve_b = 1000, fee = Some 0\<rparr>]
        ''SOL'' 10 (- 6) = Inr opps' \<and>
      mset opps'
        = mset [opportunity_dict ''SOL'' ''RAY'' ''USDC'' (1941747572815533980582524271 / 10 ^ 26)
                  (941747572815533980582524271 / 10 ^ 26),
                opportunity_dict ''SOL'' ''USDC'' ''RAY'' (4926108374384236453201970443 / 10 ^ 27)
                  (- (5073891625615763546798029557 / 10 ^ 27))] \<and>
      mset (map (\<lambda>opp. (map_of opp ''path'', map_of opp ''amount_out'')) opps')
        = mset (map (\<lambda>opp. (map_of opp ''path'', map_of opp ''amount_out''))
            [opportunity_dict ''SOL'' ''RAY'' ''USDC'' (1941747572815533980582524271 / 10 ^ 26)
               (941747572815533980582524271 / 10 ^ 26),
             opportunity_dict ''SOL'' ''USDC'' ''RAY'' (4926108374384236453201970443 / 10 ^ 27)
               (- (5073891625615763546798029557 / 10 ^ 27))]))"
proof -
  let ?P1 = "\<lparr>token_a = ''SOL'', token_b = ''RAY'', reserve_a = 1000, reserve_b = 1000, fee = Some 0\<rparr>"
  let ?P2 = "\<lparr>token_a = ''RAY'', token_b = ''USDC'', reserve_a = 1000, reserve_b = 1000, fee = Some 0\<rparr>"
  let ?P3 = "\<lparr>token_a = ''USDC'', token_b = ''SOL'', reserve_a = 1000, reserve_b = 2000, fee = Some 0\<rparr>"
  have perm: "mset [?P3, ?P1, ?P2] = mset [?P1, ?P2, ?P3]" by simp
  have ex: "find_arbitrage_opportunities [?P1, ?P2, ?P3] ''SOL'' 10 (- 6)
   = Inr [opportunity_dict ''SOL'' ''RAY'' ''USDC'' (1941747572815533980582524271 / 10 ^ 26)
            (941747572815533980582524271 / 10 ^ 26),
          opportunity_dict ''SOL'' ''USDC'' ''RAY'' (4926108374384236453201970443 / 10 ^ 27)
            (- (5073891625615763546798029557 / 10 ^ 27))]"
    by (rule example_search_all) simp_all
  from permuted_pools_same_opportunities [OF perm ex] perm ex show ?thesis by blast
qed

section \<open>The swap simulator on well-formed pools\<close>

text \<open>
  C1 (as the code has it): \<open>simulate_swap\<close> has no guard on its divisor.  For a pool whose
  reserves and fee complement \<open>1 - fee\<close> are in range (zero, or between \<open>10\<close> to the
  \<open>-100000\<close> and \<open>10\<close> to the \<open>100000\<close>, with \<open>fee < 1\<close>) and an amount in range,
  the call returns a Decimal in every case but one: when the input token matches a side
  whose reserve is zero and the amount is zero, the divisor
  \<open>reserve_in + amount_after_fee\<close> is zero and the division raises InvalidOperation
  instead of returning \<open>0\<close>.
\<close>

theorem simulate_swap_raises_on_zero_divisor:
  assumes "in_range amount_in" and "in_range (reserve_a p)" and "in_range (reserve_b p)"
    and "fee_of p < 1" and "in_range (1 - fee_of p)"
  shows "if (input_token = token_a p \<and> reserve_a p = 0 \<or>
             input_token \<noteq> token_a p \<and> input_token = token_b p \<and> reserve_b p = 0) \<and>
            amount_in = 0
         then simulate_swap amount_in p input_token = Inl InvalidOperation
         else \<exists>out. simulate_swap amount_in p input_token = Inr out"
proof -
  note a = swap_formula_in_range [OF assms(1,2,3,4,5)]
  note b = swap_formula_in_range [OF assms(1,3,2,4,5)]
  show ?thesis unfolding simulate_swap_def a b by auto
qed

theorem simulate_swap_raises_on_zero_divisor_witness:
  "in_range 0 \<and> in_range 10 \<and> in_range 1000 \<and> (25 / 10 ^ 4 :: rat) < 1 \<and> in_range (1 - 25 / 10 ^ 4) \<and>
   simulate_swap 0
     \<lparr>token_a = ''SOL'', token_b = ''RAY'', reserve_a = 0, reserve_b = 1000, fee = Some (25 / 10 ^ 4)\<rparr>
     ''SOL'' = Inl InvalidOperation \<and>
   (\<exists>out. simulate_swap 10
     \<lparr>token_a = ''SOL'', token_b = ''RAY'', reserve_a = 0, reserve_b = 1000, fee = Some (25 / 10 ^ 4)\<rparr>
     ''SOL'' = Inr out)"
proof -
  let ?p = "\<lparr>token_a = ''SOL'', token_b = ''RAY'', reserve_a = 0, reserve_b = 1000, fee = Some (25 / 10 ^ 4)\<rparr>"
  have r: "in_range 0" "in_range 10" "in_range 1000" "in_range (1 - 25 / 10 ^ 4)"
    by (rule in_rangeI, simp)+
  have h: "in_range (reserve_a ?p)" "in_range (reserve_b ?p)" "fee_of ?p < 1" "in_range (1 - fee_of ?p)"
    using r by (simp_all add: fee_of_def)
  from simulate_swap_raises_on_zero_divisor [OF r(1) h, of "''SOL''"]
    simulate_swap_raises_on_zero_divisor [OF r(2) h, of "''SOL''"] r
  show ?thesis by simp
qed

theorem simulate_swap_zero_divisor_counterexample:
  "simulate_swap 0
     \<lparr>token_a = ''SOL'', token_b = ''RAY'', reserve_a = 0, reserve_b = 1000, fee = Some (25 / 10 ^ 4)\<rparr>
     ''SOL'' = Inl InvalidOperation \<and>
   simulate_swap 0
     \<lparr>token_a = ''SOL'', token_b = ''RAY'', reserve_a = 0, reserve_b = 1000, fee = Some (25 / 10 ^ 4)\<rparr>
     ''SOL'' \<noteq> Inr 0"
  by (simp only: simulate_swap_side_a zero_divisor_example) simp

text \<open>
  C3 (as the code has it): for a pool and an amount in range, an input token equal to
  \<open>token_a\<close> (respectively to \<open>token_b\<close> alone), with \<open>reserve_in\<close> and \<open>reserve_out\<close>
  the reserves \<open>reserve_a\<close> and \<open>reserve_b\<close> (respectively \<open>reserve_b\<close> and
  \<open>reserve_a\<close>), and a reserve or an amount that is not zero, \<open>simulate_swap\<close> returns
  the constant-product formula computed in Decimal arithmetic at precision 28: with
  \<open>amount_after_fee\<close> the rounded product of the amount and the rounded \<open>1 - fee\<close>, it
  returns the rounded quotient of the rounded \<open>amount_after_fee * reserve_out\<close> and the
  rounded \<open>reserve_in + amount_after_fee\<close>.
\<close>

theorem simulate_swap_formula:
  assumes "in_range amount_in" and "in_range (reserve_a p)" and "in_range (reserve_b p)"
    and "fee_of p < 1" and "in_range (1 - fee_of p)"
    and "input_token = token_a p \<and> reserve_in = reserve_a p \<and> reserve_out = reserve_b p \<or>
         input_token \<noteq> token_a p \<and> input_token = token_b p \<and>
           reserve_in = reserve_b p \<and> reserve_out = reserve_a p"
    and "reserve_in \<noteq> 0 \<or> amount_in \<noteq> 0"
  shows "simulate_swap amount_in p input_token =
           (let amount_after_fee = round_coeff (amount_in * round_coeff (1 - fee_of p))
            in Inr (round_coeff (round_coeff (amount_after_fee * reserve_out) /
                                 round_coeff (reserve_in + amount_after_fee))))"
proof -
  note a = swap_formula_in_range [OF assms(1,2,3,4,5)]
  note b = swap_formula_in_range [OF assms(1,3,2,4,5)]
  from assms(6) show ?thesis
  proof (elim disjE conjE)
    assume m: "input_token = token_a p" "reserve_in = reserve_a p" "reserve_out = reserve_b p"
    from assms(7) have "\<not> (reserve_a p = 0 \<and> amount_in = 0)" unfolding m by blast
    then show ?thesis unfolding m Let_def by (simp add: simulate_swap_def a)
  next
    assume m: "input_token \<noteq> token_a p" "input_token = token_b p"
      "reserve_in = reserve_b p" "reserve_out = reserve_a p"
    from assms(7) have "\<not> (reserve_b p = 0 \<and> amount_in = 0)" unfolding m by blast
    with m(1) show ?thesis unfolding m(2,3,4) Let_def by (simp add: simulate_swap_def b)
  qed
qed

theorem simulate_swap_formula_witness:
  "in_range 10 \<and> in_range 1000 \<and> in_range 2000 \<and> (25 / 10 ^ 4 :: rat) < 1 \<and>
   in_range (1 - 25 / 10 ^ 4) \<and>
   simulate_swap 10
     \<lparr>token_a = ''SOL'', token_b = ''RAY'', reserve_a = 1000, reserve_b = 2000, fee = Some (25 / 10 ^ 4)\<rparr>
     ''SOL''
   = Inr (round_coeff (round_coeff (round_coeff (10 * round_coeff (1 - 25 / 10 ^ 4)) * 2000) /
                       round_coeff (1000 + round_coeff (10 * round_coeff (1 - 25 / 10 ^ 4))))) \<and>
   simulate_swap 10
     \<lparr>token_a = ''SOL'', token_b = ''RAY'', reserve_a = 1000, reserve_b = 2000, fee = Some (25 / 10 ^ 4)\<rparr>
     ''SOL''
   = Inr (1975296418228173964702096587 / 10 ^ 26)"
proof -
  let ?p = "\<lparr>token_a = ''SOL'', token_b = ''RAY'', reserve_a = 1000, reserve_b = 2000, fee = Some (25 / 10 ^ 4)\<rparr>"
  have r: "in_range 10" "in_range 1000" "in_range 2000" "in_range (1 - 25 / 10 ^ 4)"
    by (rule in_rangeI, simp)+
  have h: "in_range (reserve_a ?p)" "in_range (reserve_b ?p)" "fee_of ?p < 1" "in_range (1 - fee_of ?p)"
    using r by (simp_all add: fee_of_def)
  have m: "''SOL'' = token_a ?p \<and> 1000 = reserve_a ?p \<and> 2000 = reserve_b ?p \<or>
           ''SOL'' \<noteq> token_a ?p \<and> ''SOL'' = token_b ?p \<and> 1000 = reserve_b ?p \<and> 2000 = reserve_a ?p"
    by simp
  have n: "(1000::rat) \<noteq> 0 \<or> (10::rat) \<noteq> 0" by simp
  have v: "simulate_swap 10 ?p ''SOL'' = Inr (1975296418228173964702096587 / 10 ^ 26)"
    by (simp only: simulate_swap_side_a fee_swap_example)
  from simulate_swap_formula [OF r(1) h m n] r v show ?thesis
    by (simp add: fee_of_def Let_def)
qed

theorem simulate_swap_exact_formula_counterexample:
  "simulate_swap 0
     \<lparr>token_a = ''SOL'', token_b = ''USDC'', reserve_a = 0, reserve_b = 500, fee = Some (3 / 10 ^ 3)\<rparr>
     ''SOL''
   \<noteq> Inr ((0 * (1 - 3 / 10 ^ 3) * 500) / (0 + 0 * (1 - 3 / 10 ^ 3))) \<and>
   simulate_swap 10
     \<lparr>token_a = ''SOL'', token_b = ''USDC'', reserve_a = 1000, reserve_b = 1000, fee = Some 0\<rparr>
     ''SOL''
   \<noteq> Inr ((10 * (1 - 0) * 1000) / (1000 + 10 * (1 - 0)))"
  by (simp only: simulate_swap_side_a zero_divisor_example2 example_hop_a1) simp

(*CLAIMS*)

end
